theory Spec2Isabelle
  imports Complex_Main
begin

section \<open>Errors and arrays\<close>

text \<open>
  The Python exceptions the modelled code can raise. An assertion carries its message
  (empty when the \<^verbatim>\<open>assert\<close> has none); a \<^verbatim>\<open>NameError\<close> carries the unbound name.
  \<^verbatim>\<open>AttributeError\<close> is what a method call on \<^verbatim>\<open>None\<close> raises, and
  \<^verbatim>\<open>OverflowError\<close> what \<^verbatim>\<open>int\<close> raises on an infinite float.
\<close>

datatype error =
    AssertionError string
  | ValueError
  | IndexError
  | NameError string
  | AttributeError
  | OverflowError

text \<open>
  A numpy array: its shape and its samples in row-major (C) order. Boolean arrays are
  arrays of 0 and 1, as numpy compares them (\<^verbatim>\<open>True == 1\<close>). A numpy array always
  holds as many samples as its shape says; \<open>wf_array\<close> states it.
\<close>

record ndarray =
  shape :: "nat list"
  data :: "int list"

definition wf_array :: "ndarray \<Rightarrow> bool" where
  "wf_array A = (length (data A) = prod_list (shape A))"

text \<open>\<^verbatim>\<open>A.min()\<close> and \<^verbatim>\<open>A.max()\<close>: numpy raises \<^verbatim>\<open>ValueError\<close> on an array of size 0.\<close>

definition np_min :: "ndarray \<Rightarrow> error + int" where
  "np_min A = (if data A = [] then Inl ValueError else Inr (Min (set (data A))))"

definition np_max :: "ndarray \<Rightarrow> error + int" where
  "np_max A = (if data A = [] then Inl ValueError else Inr (Max (set (data A))))"

text \<open>\<^verbatim>\<open>np.unique\<close>: the distinct values, ascending.\<close>

definition np_unique :: "int list \<Rightarrow> int list" where
  "np_unique xs = sort (remdups xs)"

text \<open>
  \<^verbatim>\<open>I[0]\<close>: the first sub-array along the leading axis; \<^verbatim>\<open>IndexError\<close> when the
  array has no axis or the leading axis is empty.
\<close>

definition first_slice :: "ndarray \<Rightarrow> error + ndarray" where
  "first_slice A =
     (case shape A of
        [] \<Rightarrow> Inl IndexError
      | n # ss \<Rightarrow>
          if n = 0 then Inl IndexError
          else Inr \<lparr> shape = ss, data = take (prod_list ss) (data A) \<rparr>)"

text \<open>The coordinates of the sample at flat position \<open>p\<close> (\<^verbatim>\<open>np.unravel_index\<close>).\<close>

fun unravel :: "nat list \<Rightarrow> nat \<Rightarrow> nat list" where
  "unravel [] p = []"
| "unravel (n # ss) p = (p div prod_list ss) # unravel ss (p mod prod_list ss)"

section \<open>image.py\<close>

subsection \<open>extract\_nd\<close>

text \<open>
  The leading axes are dropped, one \<^verbatim>\<open>I[0]\<close> at a time, until at most \<open>nd\<close> are
  left. (The warning printed when an axis of the result is empty changes nothing.)
\<close>

function extract_nd :: "ndarray \<Rightarrow> nat \<Rightarrow> error + ndarray" where
  "extract_nd I nd =
     (if length (shape I) \<le> nd then Inr I
      else (case first_slice I of
              Inl e \<Rightarrow> Inl e
            | Inr I' \<Rightarrow> extract_nd I' nd))"
  by pat_completeness auto
termination
  by (relation "measure (\<lambda>(I, nd). length (shape I))")
     (auto simp: first_slice_def split: list.splits if_splits)

subsection \<open>ImageBase: the buffer, its backing path, load and unload\<close>

text \<open>
  The attributes \<^verbatim>\<open>_path_to_local\<close>, \<^verbatim>\<open>_pixels\<close> and \<^verbatim>\<open>_axes_order\<close>; Python's
  \<^verbatim>\<open>None\<close> is \<open>None\<close>.
\<close>

record ImageBase =
  priv_path_to_local :: "string option"
  priv_pixels :: "ndarray option"
  priv_axes_order :: string

text \<open>
  The regular files that hold an image, with the array \<^verbatim>\<open>imread\<close> decodes from each:
  \<^verbatim>\<open>os.path.isfile p\<close> is \<open>fs p \<noteq> None\<close>.
\<close>

type_synonym filesystem = "string \<Rightarrow> ndarray option"

text \<open>
  \<^verbatim>\<open>ImageBase.__init__\<close>, for a class whose \<^verbatim>\<open>_axes_order\<close> is \<open>cls_axes\<close>. The
  constructor copies the samples and calls \<^verbatim>\<open>_extract_nd\<close>; it never stores its
  \<^verbatim>\<open>path\<close> argument, so \<^verbatim>\<open>_path_to_local\<close> keeps the class default \<^verbatim>\<open>None\<close>.
  \<^verbatim>\<open>self._axes_order[-self.nd:]\<close> with \<^verbatim>\<open>nd = len(_axes_order)\<close> is the whole string.
\<close>

definition ImageBase_init :: "string \<Rightarrow> ndarray \<Rightarrow> string option \<Rightarrow> error + ImageBase" where
  "ImageBase_init cls_axes pixels path =
     (case extract_nd pixels (length cls_axes) of
        Inl e \<Rightarrow> Inl e
      | Inr p \<Rightarrow>
          Inr \<lparr> priv_path_to_local = None, priv_pixels = Some p,
                priv_axes_order =
                  (if length (shape p) \<noteq> length cls_axes
                   then drop (length cls_axes - length cls_axes) cls_axes
                   else cls_axes) \<rparr>)"

text \<open>
  \<^verbatim>\<open>read_tiff\<close>: the assertion that the file exists, with its message (the path
  between single quotes), then \<^verbatim>\<open>imread\<close>. Every file of \<open>fs\<close> decodes; a corrupted
  file, which \<^verbatim>\<open>imread\<close> refuses, is not modelled.
\<close>

definition read_tiff :: "filesystem \<Rightarrow> string \<Rightarrow> error + ndarray" where
  "read_tiff fs path =
     (case fs path of
        None \<Rightarrow> Inl (AssertionError (''file not found: '' @ [CHR 0x27] @ path @ [CHR 0x27]))
      | Some I \<Rightarrow> Inr I)"

definition ImageBase_from_tiff :: "filesystem \<Rightarrow> string \<Rightarrow> error + ImageBase" where
  "ImageBase_from_tiff fs path =
     (case read_tiff fs path of
        Inl e \<Rightarrow> Inl e
      | Inr I \<Rightarrow> ImageBase_init ''TZYX'' I (Some path))"

text \<open>
  \<^verbatim>\<open>load_from_local\<close>: two assertions, then \<^verbatim>\<open>self.from_tiff(self._path_to_local)\<close>.
  \<^verbatim>\<open>from_tiff\<close> is a static method that returns a new image; the statement drops that
  image, so the object itself is returned as it was.
\<close>

definition load_from_local :: "filesystem \<Rightarrow> ImageBase \<Rightarrow> error + ImageBase" where
  "load_from_local fs img =
     (case priv_path_to_local img of
        None \<Rightarrow> Inl (AssertionError [])
      | Some path \<Rightarrow>
          if fs path = None then Inl (AssertionError [])
          else (case ImageBase_from_tiff fs path of
                  Inl e \<Rightarrow> Inl e
                | Inr fresh \<Rightarrow> Inr img))"

text \<open>The \<^verbatim>\<open>pixels\<close> property: the object after the access and the value returned.\<close>

definition pixels :: "filesystem \<Rightarrow> ImageBase \<Rightarrow> error + (ImageBase \<times> ndarray option)" where
  "pixels fs img =
     (if priv_pixels img = None \<and> priv_path_to_local img \<noteq> None
      then (case load_from_local fs img of
              Inl e \<Rightarrow> Inl e
            | Inr img' \<Rightarrow> Inr (img', priv_pixels img'))
      else Inr (img, priv_pixels img))"

text \<open>\<^verbatim>\<open>unload\<close>, with the messages \<^verbatim>\<open>logging.error\<close> records appended to the log.\<close>

definition unload :: "filesystem \<Rightarrow> ImageBase \<Rightarrow> string list \<Rightarrow> ImageBase \<times> string list" where
  "unload fs img logged =
     (case priv_path_to_local img of
        None \<Rightarrow> (img, logged @ [''cannot unload Image without path_to_local.''])
      | Some path \<Rightarrow>
          if fs path = None
          then (img, logged @ [''path_to_local not found, cannot unload: '' @ path])
          else (img\<lparr> priv_pixels := None \<rparr>, logged))"

subsection \<open>ImageBinary\<close>

text \<open>\<^verbatim>\<open>_rebinarize\<close>: \<^verbatim>\<open>self._pixels > self._pixels.min()\<close>.\<close>

definition rebinarize :: "ndarray \<Rightarrow> error + ndarray" where
  "rebinarize A =
     (case np_min A of
        Inl e \<Rightarrow> Inl e
      | Inr m \<Rightarrow> Inr (A\<lparr> data := map (\<lambda>v. if v > m then 1 else 0) (data A) \<rparr>))"

text \<open>
  \<^verbatim>\<open>ImageBinary.__init__(pixels, path, doRebinarize)\<close>: the base constructor, the optional
  rebinarization, then \<^verbatim>\<open>assert 1 == self._pixels.max()\<close> under either setting.
\<close>

definition ImageBinary_init :: "ndarray \<Rightarrow> string option \<Rightarrow> bool \<Rightarrow> error + ImageBase" where
  "ImageBinary_init px path doRebinarize =
     (case ImageBase_init ''TZYX'' px path of
        Inl e \<Rightarrow> Inl e
      | Inr img \<Rightarrow>
          (case priv_pixels img of
             None \<Rightarrow> Inl AttributeError
           | Some p \<Rightarrow>
               (case (if doRebinarize then rebinarize p else Inr p) of
                  Inl e \<Rightarrow> Inl e
                | Inr p' \<Rightarrow>
                    (case np_max p' of
                       Inl e \<Rightarrow> Inl e
                     | Inr m \<Rightarrow>
                         if 1 = m then Inr (img\<lparr> priv_pixels := Some p' \<rparr>)
                         else Inl (AssertionError [])))))"

text \<open>
  \<^verbatim>\<open>invert\<close>: \<^verbatim>\<open>self._pixels = np.logical_not(self._pixels)\<close>, a sample becoming 1
  when it is 0 and 0 otherwise. (Of an unloaded buffer, \<^verbatim>\<open>np.logical_not(None)\<close> is the
  scalar \<^verbatim>\<open>True\<close>.) The method asserts nothing about the mask it leaves.
\<close>

definition logical_not :: "ndarray \<Rightarrow> ndarray" where
  "logical_not A = A\<lparr> data := map (\<lambda>v. if v = 0 then 1 else 0) (data A) \<rparr>"

definition invert :: "ImageBase \<Rightarrow> ImageBase" where
  "invert img =
     img\<lparr> priv_pixels :=
           (case priv_pixels img of
              None \<Rightarrow> Some \<lparr>shape = [], data = [1]\<rparr>
            | Some p \<Rightarrow> Some (logical_not p)) \<rparr>"

subsection \<open>Connected components (skimage.measure.label)\<close>

text \<open>
  \<^verbatim>\<open>label\<close> is the library's, not the repository's; it is modelled by its documented
  contract. Two samples are connected when they are neighbours (every coordinate differs
  by at most one: the default, full connectivity) and hold the same value; samples equal
  to 0 are background and stay 0; every connected region gets one label, and the regions
  are numbered from 1 in the raster order of their first samples.
\<close>

definition neighbours :: "nat list \<Rightarrow> nat \<Rightarrow> nat \<Rightarrow> bool" where
  "neighbours sh p q =
     list_all2 (\<lambda>a b. a \<le> b + 1 \<and> b \<le> a + 1) (unravel sh p) (unravel sh q)"

definition adjacent :: "ndarray \<Rightarrow> (nat \<times> nat) set" where
  "adjacent A =
     set [(p, q). p \<leftarrow> [0..<length (data A)], q \<leftarrow> [0..<length (data A)],
                  neighbours (shape A) p q \<and> data A ! p = data A ! q \<and> data A ! p \<noteq> 0]"

definition connected :: "ndarray \<Rightarrow> nat \<Rightarrow> nat \<Rightarrow> bool" where
  "connected A p q = (p = q \<or> (p, q) \<in> (adjacent A)\<^sup>+)"

text \<open>The first sample, in raster order, of the region of \<open>p\<close>.\<close>

definition root :: "ndarray \<Rightarrow> nat \<Rightarrow> nat" where
  "root A p =
     (case List.find (connected A p) [0..<length (data A)] of
        Some r \<Rightarrow> r
      | None \<Rightarrow> p)"

definition is_root :: "ndarray \<Rightarrow> nat \<Rightarrow> bool" where
  "is_root A r = (r < length (data A) \<and> data A ! r \<noteq> 0 \<and> root A r = r)"

definition label :: "ndarray \<Rightarrow> ndarray" where
  "label A =
     A\<lparr> data :=
         map (\<lambda>p. if data A ! p = 0 then 0
                   else int (length (filter (is_root A) [0..<Suc (root A p)])))
             [0..<length (data A)] \<rparr>"

subsection \<open>ImageLabeled\<close>



subsection \<open>Border clearing\<close>

text \<open>
  \<^verbatim>\<open>skimage.segmentation.clear_border\<close> (the library's, with its defaults
  \<^verbatim>\<open>buffer_size=0\<close>, \<^verbatim>\<open>bgval=0\<close>): it refuses an image with an empty axis, labels the
  image, collects the labels found on the outermost samples of every axis, and sets to 0
  every sample whose label is among them; all other samples keep their value.
\<close>

definition on_border :: "nat list \<Rightarrow> nat \<Rightarrow> bool" where
  "on_border sh p = list_ex (\<lambda>(c, n). c = 0 \<or> c + 1 = n) (zip (unravel sh p) sh)"

definition clear_border :: "ndarray \<Rightarrow> error + ndarray" where
  "clear_border A =
     (if list_ex (\<lambda>n. n = 0) (shape A) then Inl ValueError
      else
        (let labels = label A;
             borders_indices =
               np_unique (map (\<lambda>p. data labels ! p)
                              (filter (on_border (shape A)) [0..<length (data A)]))
         in Inr (A\<lparr> data :=
                     map (\<lambda>p. if data labels ! p \<in> set borders_indices then 0
                               else data A ! p)
                         [0..<length (data A)] \<rparr>)))"

text \<open>
  \<^verbatim>\<open>L[:, 0, :]\<close>, \<^verbatim>\<open>L[:, -1, :]\<close> and their like: the samples whose coordinate on
  \<open>axis\<close> is the first (or, with \<open>at_end\<close>, the last) one. An integer index into an
  empty axis raises \<^verbatim>\<open>IndexError\<close>.
\<close>

definition at_face :: "nat list \<Rightarrow> nat \<Rightarrow> bool \<Rightarrow> nat \<Rightarrow> bool" where
  "at_face sh axis at_end p = (unravel sh p ! axis = (if at_end then sh ! axis - 1 else 0))"

definition take_face :: "ndarray \<Rightarrow> nat \<Rightarrow> bool \<Rightarrow> error + int list" where
  "take_face L axis at_end =
     (if shape L ! axis = 0 then Inl IndexError
      else Inr (map (\<lambda>p. data L ! p)
                    (filter (at_face (shape L) axis at_end) [0..<length (data L)])))"

text \<open>
  The \<^verbatim>\<open>border_labels.extend(np.unique(...).tolist())\<close> statements, in order; the first
  face that cannot be taken ends the call with its error.
\<close>

fun collect_border_labels ::
    "ndarray \<Rightarrow> (nat \<times> bool) list \<Rightarrow> int list \<Rightarrow> error + int list" where
  "collect_border_labels L [] acc = Inr acc"
| "collect_border_labels L ((axis, at_end) # faces) acc =
     (case take_face L axis at_end of
        Inl e \<Rightarrow> Inl e
      | Inr f \<Rightarrow> collect_border_labels L faces (acc @ np_unique f))"

text \<open>
  \<^verbatim>\<open>L[L == lab] = 0\<close>. The source writes into the array it was given; the model
  returns the new array.
\<close>

definition zero_label :: "int \<Rightarrow> ndarray \<Rightarrow> ndarray" where
  "zero_label lab L = L\<lparr> data := map (\<lambda>v. if v = lab then 0 else v) (data L) \<rparr>"

text \<open>
  \<^verbatim>\<open>border_labels = set(border_labels)\<close> and the loop over it: the labels without
  repetition, each zeroed in turn. (The order in which Python walks the set does not
  matter: \<open>fold_zero_label\<close> below.)
\<close>

definition clear_labels :: "int list \<Rightarrow> ndarray \<Rightarrow> ndarray" where
  "clear_labels border_labels L = fold zero_label (remdups border_labels) L"

text \<open>
  \<^verbatim>\<open>clear_XY_borders\<close> and \<^verbatim>\<open>clear_Z_borders\<close>, by the number of axes: two, three,
  or any other (the array is returned as it is; the warning logged there is not
  modelled).
\<close>

definition clear_XY_borders :: "ndarray \<Rightarrow> error + ndarray" where
  "clear_XY_borders L =
     (if 2 = length (shape L) then clear_border L
      else if 3 = length (shape L) then
        (case collect_border_labels L [(1, False), (1, True), (2, False), (2, True)] [] of
           Inl e \<Rightarrow> Inl e
         | Inr border_labels \<Rightarrow> Inr (label (clear_labels border_labels L)))
      else Inr L)"

definition clear_Z_borders :: "ndarray \<Rightarrow> error + ndarray" where
  "clear_Z_borders L =
     (if 2 = length (shape L) then Inr L
      else if 3 = length (shape L) then
        (case collect_border_labels L [(0, False), (0, True)] [] of
           Inl e \<Rightarrow> Inl e
         | Inr border_labels \<Rightarrow> Inr (label (clear_labels border_labels L)))
      else Inr L)"

subsection \<open>Adaptive threshold\<close>

text \<open>
  \<^verbatim>\<open>threshold_adaptive\<close>: the assertion on the block size comes first; the dispatch
  that follows reads \<^verbatim>\<open>i.shape\<close>, and no name \<^verbatim>\<open>i\<close> is bound in the function or
  the module, so a call that passes the assertion raises \<^verbatim>\<open>NameError\<close>.
\<close>

definition threshold_adaptive ::
    "ndarray \<Rightarrow> int \<Rightarrow> string \<Rightarrow> string \<Rightarrow> error + ndarray" where
  "threshold_adaptive I block_size method mode =
     (if 0 \<noteq> block_size mod 2 then Inl (AssertionError [])
      else Inl (NameError ''i''))"

section \<open>segmentation.py: the neighbourhood side of the binarizer\<close>

text \<open>
  The settings of the binarizer: its switches and the parameters of the local threshold,
  with their class defaults. (The segmentation and analysis types, the radius interval,
  the minimum Z size and the logger play no part here and are left out.)
\<close>

record BinarizerSettings =
  do_global :: bool
  do_local :: bool
  priv_local_side :: int
  local_method :: string
  local_mode :: string
  local_closing :: bool
  do_clear_XY_borders :: bool
  do_clear_Z_borders :: bool
  do_fill_holes :: bool

definition BinarizerSettings_default :: BinarizerSettings where
  "BinarizerSettings_default =
     \<lparr> do_global = True, do_local = True, priv_local_side = 101,
       local_method = ''median'', local_mode = ''constant'', local_closing = True,
       do_clear_XY_borders = True, do_clear_Z_borders = False, do_fill_holes = True \<rparr>"

definition local_side :: "BinarizerSettings \<Rightarrow> int" where
  "local_side s = priv_local_side s"

text \<open>
  \<^verbatim>\<open>if 0 != value % 2: value += 1\<close>; Python's \<^verbatim>\<open>%\<close> with a positive divisor is
  the floored remainder, which is \<open>mod\<close> on \<open>int\<close>.
\<close>

definition local_side_setter :: "BinarizerSettings \<Rightarrow> int \<Rightarrow> BinarizerSettings" where
  "local_side_setter s v = s\<lparr> priv_local_side := (if 0 \<noteq> v mod 2 then v + 1 else v) \<rparr>"

section \<open>particle.py\<close>

subsection \<open>Bounding regions\<close>

text \<open>
  Modelled from the spec: \<^verbatim>\<open>BoundingElement\<close>, of \<^verbatim>\<open>radiantkit.selection\<close>, which
  is not among the sources. The spec: an axis-aligned minimal box, per-axis
  \<open>[start, end)\<close> ranges, that exactly contains one component's foreground voxels, and
  that applies itself as a crop operator against any same-shaped image.
\<close>

type_synonym BoundingElement = "(nat \<times> nat) list"

text \<open>Modelled from the spec: the \<^verbatim>\<open>shape\<close> of a bounding region, its per-axis extents.\<close>

definition roi_shape :: "BoundingElement \<Rightarrow> nat list" where
  "roi_shape roi = map (\<lambda>(s, e). e - s) roi"

text \<open>
  Modelled from the spec: \<^verbatim>\<open>BoundingElement.from_binary_pixels\<close>, the minimal box of
  the foreground of a mask: on every axis, from the least coordinate of a foreground
  sample to one past the greatest. A mask with no foreground gets the empty range
  \<open>[n, 0)\<close> on an axis of extent \<open>n\<close>.
\<close>

definition from_binary_pixels :: "ndarray \<Rightarrow> BoundingElement" where
  "from_binary_pixels B =
     (let fg = filter (\<lambda>p. data B ! p \<noteq> 0) [0..<length (data B)] in
      map (\<lambda>k. (Min (set (shape B ! k # map (\<lambda>p. unravel (shape B) p ! k) fg)),
                 Max (set (0 # map (\<lambda>p. Suc (unravel (shape B) p ! k)) fg))))
          [0..<length (shape B)])"

text \<open>
  Modelled from the spec: \<^verbatim>\<open>BoundingElement.apply_to_pixels\<close>, the crop: the samples
  whose coordinates lie in the box, in their raster order.
\<close>

definition in_roi :: "BoundingElement \<Rightarrow> nat list \<Rightarrow> nat \<Rightarrow> bool" where
  "in_roi roi sh p = list_all2 (\<lambda>c (s, e). s \<le> c \<and> c < e) (unravel sh p) roi"

definition apply_to_pixels :: "BoundingElement \<Rightarrow> ndarray \<Rightarrow> ndarray" where
  "apply_to_pixels roi B =
     \<lparr> shape = roi_shape roi,
       data = map (\<lambda>p. data B ! p) (filter (in_roi roi (shape B)) [0..<length (data B)]) \<rparr>"

subsection \<open>ParticleBase and Particle\<close>

text \<open>
  \<^verbatim>\<open>ParticleBase\<close> extends \<^verbatim>\<open>ImageBinary\<close> with \<^verbatim>\<open>_region_of_interest\<close>,
  \<^verbatim>\<open>idx\<close> and the caches \<^verbatim>\<open>_total_size\<close> and \<^verbatim>\<open>_surface\<close>; \<^verbatim>\<open>Particle\<close> adds
  \<^verbatim>\<open>_intensity\<close> (channel name, mean, sum). \<^verbatim>\<open>Nucleus\<close> passes its arguments on to
  \<^verbatim>\<open>Particle.__init__\<close> and is not modelled apart.
\<close>

text \<open>
  Modelled from the spec: the attribute \<^verbatim>\<open>aspect\<close>, the voxel aspect-ratio vector
  (per-axis physical scale), which image.py does not define. Its entries are floats,
  given by their values. A new particle starts with the neutral ratio 1 on every axis;
  the finder overwrites it before anything reads it.
\<close>

record ParticleBase = ImageBase +
  priv_region_of_interest :: BoundingElement
  idx :: "int option"
  priv_total_size :: "nat option"
  priv_surface :: "real option"
  aspect :: "real list"

record Particle = ParticleBase +
  priv_intensity :: "(string \<times> real \<times> real) list"

text \<open>Python's truth value of an \<^verbatim>\<open>Optional[str]\<close>.\<close>

definition truthy :: "string option \<Rightarrow> bool" where
  "truthy s = (case s of None \<Rightarrow> False | Some t \<Rightarrow> t \<noteq> [])"

text \<open>
  \<^verbatim>\<open>Particle.__init__\<close>, through \<^verbatim>\<open>ParticleBase.__init__\<close>: the assertion on the
  shapes, then \<^verbatim>\<open>super().__init__(pixels, None, axes)\<close>. The third positional
  parameter of \<^verbatim>\<open>ImageBinary.__init__\<close> in image.py is \<^verbatim>\<open>doRebinarize\<close>, so the
  axes string is what decides the rebinarization.
\<close>

definition Particle_init ::
    "ndarray \<Rightarrow> BoundingElement \<Rightarrow> string option \<Rightarrow> error + Particle" where
  "Particle_init px roi axes =
     (if shape px \<noteq> roi_shape roi then Inl (AssertionError ''(pixels.shape, roi)'')
      else (case ImageBinary_init px None (truthy axes) of
              Inl e \<Rightarrow> Inl e
            | Inr img \<Rightarrow>
                Inr \<lparr> priv_path_to_local = priv_path_to_local img,
                      priv_pixels = priv_pixels img,
                      priv_axes_order = priv_axes_order img,
                      priv_region_of_interest = roi,
                      idx = None,
                      priv_total_size = None,
                      priv_surface = None,
                      aspect = replicate (length (shape px)) 1,
                      priv_intensity = [] \<rparr>))"

text \<open>
  Modelled from the spec: the attribute \<^verbatim>\<open>foreground\<close>, the count of foreground voxels
  of the mask the particle holds now, which image.py does not define.
\<close>

definition foreground :: "'a ParticleBase_scheme \<Rightarrow> error + nat" where
  "foreground P =
     (case priv_pixels P of
        None \<Rightarrow> Inl AttributeError
      | Some p \<Rightarrow> Inr (length (filter (\<lambda>v. v \<noteq> 0) (data p))))"

text \<open>The \<^verbatim>\<open>total_size\<close> property: computed once and kept in \<^verbatim>\<open>_total_size\<close>.\<close>

definition total_size ::
    "'a ParticleBase_scheme \<Rightarrow> error + (nat \<times> 'a ParticleBase_scheme)" where
  "total_size P =
     (case priv_total_size P of
        Some n \<Rightarrow> Inr (n, P)
      | None \<Rightarrow>
          (case foreground P of
             Inl e \<Rightarrow> Inl e
           | Inr n \<Rightarrow> Inr (n, P\<lparr> priv_total_size := Some n \<rparr>)))"

subsection \<open>Double-precision floats\<close>

text \<open>
  Python's \<^verbatim>\<open>float\<close> and numpy's \<^verbatim>\<open>float64\<close> are IEEE 754 binary64 numbers. A
  finite one is a real \<open>m * 2 ^ e\<close> with \<open>\<bar>m\<bar> < 2 ^ 53\<close> and \<open>-1074 \<le> e \<le> 971\<close>; the
  others are the two infinities (\<open>Infinity True\<close> the negative one) and NaN. The sign of
  a zero is not kept: no operation modelled here depends on it.
\<close>

datatype float64 = Finite real | Infinity bool | NaN

text \<open>\<open>2 ^ e\<close> for an integer \<open>e\<close>.\<close>

definition pow2 :: "int \<Rightarrow> real" where
  "pow2 e = (if 0 \<le> e then 2 ^ nat e else 1 / 2 ^ nat (- e))"

text \<open>The nearest integer, a tie going to the even one.\<close>

definition round_half_even :: "real \<Rightarrow> int" where
  "round_half_even q =
     (let f = \<lfloor>q\<rfloor> in
      if q - of_int f < 1 / 2 then f
      else if 1 / 2 < q - of_int f then f + 1
      else if even f then f else f + 1)"

text \<open>
  The exponent of the binade of \<open>x\<close>: the least \<open>e\<close>, from the least normal exponent
  -1022 on, with \<open>\<bar>x\<bar> < 2 ^ (e + 1)\<close>; none when \<open>\<bar>x\<bar>\<close> is \<open>2 ^ 1024\<close> or more.
\<close>

definition binade :: "real \<Rightarrow> int option" where
  "binade x = List.find (\<lambda>e. \<bar>x\<bar> < pow2 (e + 1)) [-1022..1023]"

text \<open>
  The rounding of every arithmetic operation (to nearest, ties to even): the nearest
  multiple of the unit in the last place of the binade, \<open>2 ^ (e - 52)\<close>, which for the
  subnormal numbers is \<open>2 ^ (-1074)\<close>. A result of magnitude \<open>2 ^ 1024\<close> or more is an
  infinity.
\<close>

definition round64 :: "real \<Rightarrow> float64" where
  "round64 x =
     (case binade x of
        None \<Rightarrow> Infinity (x < 0)
      | Some e \<Rightarrow>
          (let r = of_int (round_half_even (x / pow2 (e - 52))) * pow2 (e - 52) in
           if pow2 1024 \<le> \<bar>r\<bar> then Infinity (x < 0) else Finite r))"

text \<open>The float multiplication \<^verbatim>\<open>a * b\<close>.\<close>

fun fmul :: "float64 \<Rightarrow> float64 \<Rightarrow> float64" where
  "fmul (Finite a) (Finite b) = round64 (a * b)"
| "fmul (Finite a) (Infinity s) = (if a = 0 then NaN else Infinity (s \<noteq> (a < 0)))"
| "fmul (Infinity s) (Finite b) = (if b = 0 then NaN else Infinity (s \<noteq> (b < 0)))"
| "fmul (Infinity s) (Infinity t) = Infinity (s \<noteq> t)"
| "fmul NaN y = NaN"
| "fmul x NaN = NaN"

text \<open>
  \<^verbatim>\<open>np.prod\<close> of a one-dimensional array of floats, given by the values of its entries
  (finite doubles): the entries multiplied from left to right, every product rounded;
  1.0 for the empty array.
\<close>

definition np_prod :: "real list \<Rightarrow> float64" where
  "np_prod xs = (case xs of [] \<Rightarrow> Finite 1 | a # as \<Rightarrow> foldl fmul (Finite a) (map Finite as))"

text \<open>
  Python's \<^verbatim>\<open>int(x)\<close> of a float: truncation toward zero; \<^verbatim>\<open>OverflowError\<close> for an
  infinity and \<^verbatim>\<open>ValueError\<close> for NaN.
\<close>

definition py_int :: "real \<Rightarrow> int" where
  "py_int x = (if 0 \<le> x then \<lfloor>x\<rfloor> else \<lceil>x\<rceil>)"

definition py_int_float :: "float64 \<Rightarrow> error + int" where
  "py_int_float x =
     (case x of
        Finite r \<Rightarrow> Inr (py_int r)
      | Infinity s \<Rightarrow> Inl OverflowError
      | NaN \<Rightarrow> Inl ValueError)"

text \<open>
  \<^verbatim>\<open>volume\<close>: \<^verbatim>\<open>int(self.total_size * np.prod(self.aspect))\<close>. The product of the
  aspect is a \<^verbatim>\<open>float64\<close>; the voxel count is converted to a float (rounded, when it
  does not fit the 53 bits of a double) and the two are multiplied as floats.
\<close>

definition volume ::
    "'a ParticleBase_scheme \<Rightarrow> error + (int \<times> 'a ParticleBase_scheme)" where
  "volume P =
     (case total_size P of
        Inl e \<Rightarrow> Inl e
      | Inr (n, P') \<Rightarrow>
          (case py_int_float (fmul (round64 (real n)) (np_prod (aspect P'))) of
             Inl e \<Rightarrow> Inl e
           | Inr v \<Rightarrow> Inr (v, P')))"

text \<open>
  The \<^verbatim>\<open>surface\<close> property: computed once by the library's marching cubes and mesh
  area, here the parameter \<open>mesh_area\<close> of the mask and the aspect, and kept in
  \<^verbatim>\<open>_surface\<close>.
\<close>

definition surface ::
    "(ndarray \<Rightarrow> real list \<Rightarrow> real) \<Rightarrow> 'a ParticleBase_scheme
      \<Rightarrow> error + (real \<times> 'a ParticleBase_scheme)" where
  "surface mesh_area P =
     (case priv_surface P of
        Some s \<Rightarrow> Inr (s, P)
      | None \<Rightarrow>
          (case priv_pixels P of
             None \<Rightarrow> Inl AttributeError
           | Some p \<Rightarrow>
               (let s = mesh_area p (aspect P) in Inr (s, P\<lparr> priv_surface := Some s \<rparr>))))"

text \<open>
  A numpy division: a float, or no finite float (\<open>None\<close>: numpy warns and gives
  \<^verbatim>\<open>inf\<close> or \<^verbatim>\<open>nan\<close>) when the divisor is 0.
\<close>

definition np_divide :: "real \<Rightarrow> real \<Rightarrow> real option" where
  "np_divide a b = (if b = 0 then None else Some (a / b))"

text \<open>
  \<^verbatim>\<open>shape_descriptor\<close>. \<^verbatim>\<open>convex_hull_image\<close> is the library's (a boolean image,
  whose \<^verbatim>\<open>sum()\<close> counts its pixels) and is the parameter \<open>convex_hull_image\<close>.
\<close>

definition shape_descriptor ::
    "(ndarray \<Rightarrow> ndarray) \<Rightarrow> (ndarray \<Rightarrow> real list \<Rightarrow> real) \<Rightarrow> 'a ParticleBase_scheme
      \<Rightarrow> error + (real option \<times> 'a ParticleBase_scheme)" where
  "shape_descriptor convex_hull_image mesh_area P =
     (case priv_pixels P of
        None \<Rightarrow> Inl AttributeError
      | Some p \<Rightarrow>
          if 2 = length (shape p) then
            (let convex_size = sum_list (data (convex_hull_image p)) in
             case total_size P of
               Inl e \<Rightarrow> Inl e
             | Inr (n, P') \<Rightarrow> Inr (np_divide (real n) (real_of_int convex_size), P'))
          else if 3 = length (shape p) then
            (case total_size P of
               Inl e \<Rightarrow> Inl e
             | Inr (n, P') \<Rightarrow>
                 (let sphere_surface = (pi * (6 * real n) ^ 2) powr (1 / 3) in
                  case surface mesh_area P' of
                    Inl e \<Rightarrow> Inl e
                  | Inr (s, P'') \<Rightarrow> Inr (np_divide sphere_surface s, P'')))
          else Inr (Some 0, P))"

subsection \<open>ParticleFinder\<close>

text \<open>\<^verbatim>\<open>L.pixels == particle_label\<close>.\<close>

definition eq_mask :: "ndarray \<Rightarrow> int \<Rightarrow> ndarray" where
  "eq_mask A v = A\<lparr> data := map (\<lambda>x. if x = v then 1 else 0) (data A) \<rparr>"

text \<open>
  The body of the loop for one label. \<^verbatim>\<open>L.axes\<close> and \<^verbatim>\<open>L.aspect\<close> are attributes
  that no class of image.py defines or assigns: what they hold is not decided by the
  sources, and they are the parameters \<open>L_axes\<close> (an \<^verbatim>\<open>Optional[str]\<close>, as the
  constructor of the particle declares it) and \<open>L_aspect\<close> of the finder.
\<close>

definition make_particle ::
    "string option \<Rightarrow> real list \<Rightarrow> ndarray \<Rightarrow> int \<Rightarrow> error + Particle" where
  "make_particle L_axes L_aspect px particle_label =
     (let binary_pixels = eq_mask px particle_label;
          roi = from_binary_pixels binary_pixels
      in case Particle_init (apply_to_pixels roi binary_pixels) roi L_axes of
           Inl e \<Rightarrow> Inl e
         | Inr particle \<Rightarrow>
             Inr (particle\<lparr> aspect := L_aspect, idx := Some particle_label \<rparr>))"

fun particles_loop ::
    "string option \<Rightarrow> real list \<Rightarrow> ndarray \<Rightarrow> int list \<Rightarrow> Particle list
      \<Rightarrow> error + Particle list" where
  "particles_loop L_axes L_aspect px [] boxed_particles = Inr boxed_particles"
| "particles_loop L_axes L_aspect px (particle_label # rest) boxed_particles =
     (if 0 = particle_label then particles_loop L_axes L_aspect px rest boxed_particles
      else (case make_particle L_axes L_aspect px particle_label of
              Inl e \<Rightarrow> Inl e
            | Inr particle \<Rightarrow>
                particles_loop L_axes L_aspect px rest (boxed_particles @ [particle])))"

text \<open>
  \<^verbatim>\<open>get_particles_from_labeled_image\<close>. The values of \<^verbatim>\<open>L.axes\<close> and \<^verbatim>\<open>L.aspect\<close>
  are the parameters \<open>L_axes\<close> and \<open>L_aspect\<close>.
\<close>

definition get_particles_from_labeled_image ::
    "filesystem \<Rightarrow> ImageBase \<Rightarrow> string option \<Rightarrow> real list \<Rightarrow> error + Particle list" where
  "get_particles_from_labeled_image fs L L_axes L_aspect =
     (case pixels fs L of
        Inl e \<Rightarrow> Inl e
      | Inr (L', None) \<Rightarrow> Inl AttributeError
      | Inr (L', Some px) \<Rightarrow>
          (case np_min px of
             Inl e \<Rightarrow> Inl e
           | Inr lo \<Rightarrow>
               (case np_max px of
                  Inl e \<Rightarrow> Inl e
                | Inr hi \<Rightarrow>
                    if lo = hi then Inl (AssertionError ''monochromatic image detected.'')
                    else particles_loop L_axes L_aspect px (np_unique (data px)) [])))"


section \<open>Vocabulary of the claims\<close>

text \<open>
  The sample at flat position \<open>p\<close> lies on a face of \<open>axis\<close>: its coordinate on
  that axis is the first or the last one. In a 3D stack (axes Z, Y, X) the row and column
  faces are the faces of the axes 1 and 2, the depth faces those of the axis 0.
\<close>

definition on_face :: "nat list \<Rightarrow> nat \<Rightarrow> nat \<Rightarrow> bool" where
  "on_face sh axis p = (at_face sh axis False p \<or> at_face sh axis True p)"

text \<open>
  The cropped occupancy mask the finder builds for the label \<open>v\<close> of the labeled
  array \<open>px\<close>: the expression \<^verbatim>\<open>roi.apply_to_pixels(binary_pixels)\<close> of the loop.
\<close>

definition particle_mask :: "ndarray \<Rightarrow> int \<Rightarrow> ndarray" where
  "particle_mask px v =
     apply_to_pixels (from_binary_pixels (eq_mask px v)) (eq_mask px v)"

text \<open>
  A real number is a double when rounding leaves it as it is. The products that
  \<^verbatim>\<open>np.prod\<close> forms on the way, from \<open>a\<close> on: \<open>a\<close>, \<open>a * b\<^sub>1\<close>, \<open>a * b\<^sub>1 * b\<^sub>2\<close>,
  and so on.
\<close>

definition is_double :: "real \<Rightarrow> bool" where
  "is_double x = (round64 x = Finite x)"

fun partial_products :: "real \<Rightarrow> real list \<Rightarrow> real list" where
  "partial_products a [] = [a]"
| "partial_products a (b # bs) = a # partial_products (a * b) bs"

text \<open>No product that \<^verbatim>\<open>np.prod\<close> forms over the array is rounded.\<close>

definition products_exact :: "real list \<Rightarrow> bool" where
  "products_exact xs =
     (case xs of [] \<Rightarrow> True | a # as \<Rightarrow> list_all is_double (partial_products a as))"

section \<open>Concrete inputs\<close>

text \<open>
  A particle as the finder leaves it, for stating concrete cases: the mask \<open>px\<close>, the
  box of the whole mask, the label 1, no cached size or surface, and the aspect \<open>asp\<close>.
\<close>

definition example_particle :: "ndarray \<Rightarrow> real list \<Rightarrow> Particle" where
  "example_particle px asp =
     \<lparr> priv_path_to_local = None, priv_pixels = Some px, priv_axes_order = ''TZYX'',
       priv_region_of_interest = map (\<lambda>n. (0, n)) (shape px), idx = Some 1,
       priv_total_size = None, priv_surface = None, aspect = asp, priv_intensity = [] \<rparr>"

section \<open>Properties of the neighbourhood side\<close>

lemma local_side_setter_even: "even (local_side (local_side_setter s v))"
  by (simp add: local_side_def local_side_setter_def) presburger

lemma threshold_adaptive_rejects_odd:
  "odd block_size \<Longrightarrow>
     threshold_adaptive I block_size method mode = Inl (AssertionError [])"
  by (simp add: threshold_adaptive_def odd_iff_mod_2_eq_one)

text \<open>
  C2. The setter leaves the even side 100 as it is and moves the odd side 101 to 102, and
  the adaptive threshold refuses the odd side 101 with an assertion error: the parity the
  code enforces is the opposite of the one the command line documents (Must be odd).
  The side the setter stores is even for every value (\<open>local_side_setter_even\<close>), and
  the threshold refuses every odd side (\<open>threshold_adaptive_rejects_odd\<close>).
\<close>

theorem local_side_parity_reversed:
  "local_side (local_side_setter BinarizerSettings_default 100) = 100
   \<and> local_side (local_side_setter BinarizerSettings_default 101) = 102
   \<and> threshold_adaptive I 101 ''median'' ''constant'' = Inl (AssertionError [])"
  by (simp add: local_side_def local_side_setter_def threshold_adaptive_def)

section \<open>Arrays that survive extract\_nd\<close>

lemma first_slice_nonempty:
  assumes "wf_array A" "data A \<noteq> []" "shape A \<noteq> []"
  shows "\<exists>A'. first_slice A = Inr A' \<and> wf_array A' \<and> data A' \<noteq> []
          \<and> set (data A') \<subseteq> set (data A) \<and> length (shape A') < length (shape A)"
proof -
  from assms(3) obtain n ss where sh: "shape A = n # ss" by (cases "shape A") auto
  from assms(1) sh have len: "length (data A) = n * prod_list ss"
    by (simp add: wf_array_def)
  from assms(2) have "length (data A) \<noteq> 0" by simp
  with len have "n \<noteq> 0" "prod_list ss \<noteq> 0" by auto
  with sh len show ?thesis
    by (auto simp: first_slice_def wf_array_def dest: in_set_takeD)
qed

lemma extract_nd_nonempty:
  "wf_array A \<Longrightarrow> data A \<noteq> [] \<Longrightarrow>
     \<exists>A'. extract_nd A nd = Inr A' \<and> wf_array A' \<and> data A' \<noteq> [] \<and> set (data A') \<subseteq> set (data A)"
proof (induction A nd rule: extract_nd.induct)
  case (1 I nd)
  show ?case
  proof (cases "length (shape I) \<le> nd")
    case True
    with 1 show ?thesis by simp
  next
    case False
    then have "shape I \<noteq> []" by auto
    from first_slice_nonempty[OF "1.prems" this] obtain I' where
      I': "first_slice I = Inr I'" "wf_array I'" "data I' \<noteq> []" "set (data I') \<subseteq> set (data I)"
      by blast
    from "1.IH"[OF False I'(1) I'(2,3)] obtain A' where
      "extract_nd I' nd = Inr A'" "wf_array A'" "data A' \<noteq> []" "set (data A') \<subseteq> set (data I')"
      by blast
    with False I' show ?thesis
      by (auto simp del: extract_nd.simps simp add: extract_nd.simps[of I])
  qed
qed


declare extract_nd.simps [simp del]

lemma first_slice_error: "first_slice A = Inl e \<Longrightarrow> e = IndexError"
  by (auto simp: first_slice_def split: list.splits if_splits)

lemma extract_nd_error: "extract_nd A nd = Inl e \<Longrightarrow> e = IndexError"
proof (induction A nd rule: extract_nd.induct)
  case (1 I nd)
  then show ?case
    by (auto simp: extract_nd.simps[of I] dest: first_slice_error split: if_splits sum.splits)
qed

section \<open>Unloading and reloading\<close>





text \<open>
  What \<^verbatim>\<open>load_from_local\<close> would do for an image whose \<^verbatim>\<open>_path_to_local\<close> had been
  assigned from outside the module (no constructor yields one): the image read by
  \<^verbatim>\<open>from_tiff\<close> is dropped, and the \<^verbatim>\<open>pixels\<close> property read after \<^verbatim>\<open>unload\<close>
  returns \<^verbatim>\<open>None\<close>.
\<close>

lemma pixels_after_unload_is_None:
  assumes "priv_path_to_local img = Some path" and "fs path = Some a"
    and "pixels fs (fst (unload fs img logged)) = Inr (img', v)"
  shows "v = None"
  using assms
  by (auto simp: pixels_def unload_def load_from_local_def
           split: sum.splits option.splits if_splits)

section \<open>The invariant of a binary image\<close>

lemma ImageBase_init_nonempty:
  assumes "wf_array px" "data px \<noteq> []"
  shows "\<exists>p. ImageBase_init cls px path =
           Inr \<lparr> priv_path_to_local = None, priv_pixels = Some p, priv_axes_order = cls \<rparr>
         \<and> wf_array p \<and> data p \<noteq> [] \<and> set (data p) \<subseteq> set (data px)"
proof -
  from extract_nd_nonempty[OF assms, of "length cls"] obtain p where
    "extract_nd px (length cls) = Inr p" "wf_array p" "data p \<noteq> []" "set (data p) \<subseteq> set (data px)"
    by blast
  then show ?thesis by (auto simp: ImageBase_init_def)
qed

lemma ImageBase_init_Inr:
  "ImageBase_init cls px path = Inr img \<Longrightarrow>
     \<exists>p. img = \<lparr> priv_path_to_local = None, priv_pixels = Some p, priv_axes_order = cls \<rparr>
        \<and> extract_nd px (length cls) = Inr p"
  by (auto simp: ImageBase_init_def split: sum.splits)

lemma set_const:
  "xs \<noteq> [] \<Longrightarrow> \<forall>x\<in>set xs. x = c \<Longrightarrow> set xs = {c}"
  by (cases xs) auto

lemma np_max_const:
  "xs \<noteq> [] \<Longrightarrow> \<forall>x\<in>set xs. x = c \<Longrightarrow> Max (set xs) = (c::int)"
  using set_const[of xs c] by simp

lemma np_min_const:
  "xs \<noteq> [] \<Longrightarrow> \<forall>x\<in>set xs. x = c \<Longrightarrow> Min (set xs) = (c::int)"
  using set_const[of xs c] by simp

lemma rebinarize_const:
  assumes "data p \<noteq> []" "\<forall>x\<in>set (data p). x = c"
  shows "\<exists>p'. rebinarize p = Inr p' \<and> data p' \<noteq> [] \<and> (\<forall>x\<in>set (data p'). x = 0)"
proof -
  from assms have m: "Min (set (data p)) = c" by (rule np_min_const)
  have "\<forall>x\<in>set (map (\<lambda>v. if v > c then 1 else 0) (data p)). x = (0::int)"
    using assms(2) by auto
  with assms(1) m show ?thesis by (simp add: rebinarize_def np_min_def)
qed

lemma ImageBinary_init_all_equal:
  assumes "wf_array px" "data px \<noteq> []" "\<forall>x\<in>set (data px). x = c"
  shows "ImageBinary_init px path True = Inl (AssertionError [])"
proof -
  from ImageBase_init_nonempty[OF assms(1,2), of "''TZYX''" path] obtain p where
    p: "ImageBase_init ''TZYX'' px path =
           Inr \<lparr> priv_path_to_local = None, priv_pixels = Some p, priv_axes_order = ''TZYX'' \<rparr>"
       "data p \<noteq> []" "set (data p) \<subseteq> set (data px)"
    by blast
  with assms(3) have "\<forall>x\<in>set (data p). x = c" by auto
  from rebinarize_const[OF p(2) this] obtain p' where
    p': "rebinarize p = Inr p'" "data p' \<noteq> []" "\<forall>x\<in>set (data p'). x = 0" by blast
  then have "np_max p' = Inr 0" using np_max_const[of "data p'" 0] by (simp add: np_max_def)
  with p p' show ?thesis by (simp add: ImageBinary_init_def)
qed

lemma ImageBinary_init_all_equal_bypass:
  assumes "wf_array px" "data px \<noteq> []" "\<forall>x\<in>set (data px). x = c" "c \<noteq> 1"
  shows "ImageBinary_init px path False = Inl (AssertionError [])"
proof -
  from ImageBase_init_nonempty[OF assms(1,2), of "''TZYX''" path] obtain p where
    p: "ImageBase_init ''TZYX'' px path =
           Inr \<lparr> priv_path_to_local = None, priv_pixels = Some p, priv_axes_order = ''TZYX'' \<rparr>"
       "data p \<noteq> []" "set (data p) \<subseteq> set (data px)"
    by blast
  with assms(3) have "\<forall>x\<in>set (data p). x = c" by auto
  with p(2) have "np_max p = Inr c" using np_max_const[of "data p" c] by (simp add: np_max_def)
  with p assms(4) show ?thesis by (simp add: ImageBinary_init_def)
qed

lemma ImageBinary_init_all_ones:
  assumes "wf_array px" "data px \<noteq> []" "\<forall>x\<in>set (data px). x = 1"
  shows "\<exists>img. ImageBinary_init px path False = Inr img"
proof -
  from ImageBase_init_nonempty[OF assms(1,2), of "''TZYX''" path] obtain p where
    p: "ImageBase_init ''TZYX'' px path =
           Inr \<lparr> priv_path_to_local = None, priv_pixels = Some p, priv_axes_order = ''TZYX'' \<rparr>"
       "data p \<noteq> []" "set (data p) \<subseteq> set (data px)"
    by blast
  with assms(3) have "\<forall>x\<in>set (data p). x = 1" by auto
  with p(2) have "np_max p = Inr 1" using np_max_const[of "data p" 1] by (simp add: np_max_def)
  with p show ?thesis by (simp add: ImageBinary_init_def)
qed

lemma first_slice_empty: "first_slice A = Inr A' \<Longrightarrow> data A = [] \<Longrightarrow> data A' = []"
  by (auto simp: first_slice_def split: list.splits if_splits)

lemma extract_nd_empty: "extract_nd A nd = Inr A' \<Longrightarrow> data A = [] \<Longrightarrow> data A' = []"
proof (induction A nd rule: extract_nd.induct)
  case (1 I nd)
  show ?case
  proof (cases "length (shape I) \<le> nd")
    case True
    with "1.prems" show ?thesis by (simp add: extract_nd.simps[of I])
  next
    case False
    with "1.prems"(1) obtain I' where I': "first_slice I = Inr I'" "extract_nd I' nd = Inr A'"
      by (auto simp: extract_nd.simps[of I] split: sum.splits)
    from first_slice_empty[OF I'(1) "1.prems"(2)] have "data I' = []" .
    from "1.IH"[OF False I'(1) I'(2) this] show ?thesis .
  qed
qed

lemma ImageBinary_init_empty:
  assumes "data px = []"
  shows "ImageBinary_init px path b = Inl IndexError \<or> ImageBinary_init px path b = Inl ValueError"
proof (cases "extract_nd px (length ''TZYX'')")
  case (Inl e)
  from extract_nd_error[OF this] Inl
  have "ImageBase_init ''TZYX'' px path = Inl IndexError"
    unfolding ImageBase_init_def by (simp only: sum.case)
  then show ?thesis by (simp add: ImageBinary_init_def)
next
  case (Inr p)
  from extract_nd_empty[OF this assms] have e: "data p = []" .
  from Inr obtain img where img: "ImageBase_init ''TZYX'' px path = Inr img"
      "priv_pixels img = Some p"
    unfolding ImageBase_init_def by (simp only: sum.case) simp
  from e img show ?thesis
    by (simp add: ImageBinary_init_def rebinarize_def np_min_def np_max_def)
qed

lemma ImageBinary_init_Inr:
  assumes "ImageBinary_init px path b = Inr img"
  shows "\<exists>p. priv_pixels img = Some p \<and> np_max p = Inr 1 \<and> priv_path_to_local img = None
           \<and> priv_axes_order img = ''TZYX''"
  using assms
  by (auto simp: ImageBinary_init_def dest!: ImageBase_init_Inr
           split: sum.splits option.splits if_splits)

lemma np_max_one_in: "np_max p = Inr 1 \<Longrightarrow> 1 \<in> set (data p)"
proof -
  assume a: "np_max p = Inr 1"
  then have ne: "data p \<noteq> []" and m: "Max (set (data p)) = 1"
    by (auto simp: np_max_def split: if_splits)
  from ne have "Max (set (data p)) \<in> set (data p)" by (intro Max_in) auto
  with m show ?thesis by simp
qed

text \<open>
  C9. Whenever the construction of an \<^verbatim>\<open>ImageBinary\<close> returns, the maximum sample of
  its buffer is exactly 1. This holds with rebinarization (\<^verbatim>\<open>doRebinarize=True\<close>, the
  case of the claim) and also when it is bypassed: the assertion is made under either
  setting.
\<close>

theorem ImageBinary_max_is_one:
  "ImageBinary_init px path doRebinarize = Inr img \<Longrightarrow>
     \<exists>p. priv_pixels img = Some p \<and> np_max p = Inr 1"
  using ImageBinary_init_Inr by blast

theorem ImageBinary_max_is_one_witness:
  "ImageBinary_init \<lparr>shape = [1, 2], data = [3, 7]\<rparr> None True
     = Inr \<lparr> priv_path_to_local = None, priv_pixels = Some \<lparr>shape = [1, 2], data = [0, 1]\<rparr>,
             priv_axes_order = ''TZYX'' \<rparr>
   \<and> (\<exists>p. priv_pixels \<lparr> priv_path_to_local = None,
                         priv_pixels = Some \<lparr>shape = [1, 2], data = [0, 1]\<rparr>,
                         priv_axes_order = ''TZYX'' \<rparr> = Some p \<and> np_max p = Inr 1)"
proof -
  have h: "ImageBinary_init \<lparr>shape = [1, 2], data = [3, 7]\<rparr> None True
     = Inr \<lparr> priv_path_to_local = None, priv_pixels = Some \<lparr>shape = [1, 2], data = [0, 1]\<rparr>,
             priv_axes_order = ''TZYX'' \<rparr>"
    by (simp add: ImageBinary_init_def ImageBase_init_def extract_nd.simps rebinarize_def
        np_min_def np_max_def)
  from ImageBinary_max_is_one[OF h] h show ?thesis by blast
qed

text \<open>
  C10 (amended). For an array whose samples are all equal to \<open>c\<close>. When it holds at
  least one sample: with rebinarization the construction of an \<^verbatim>\<open>ImageBinary\<close> fails
  with the assertion error (the rebinarized mask is all 0, its maximum is 0); with
  rebinarization bypassed it fails with the assertion error when \<open>c\<close> is not 1, in
  particular when the samples are all 0 (no foreground), and it succeeds when \<open>c\<close> is 1.
  When it holds no sample, the construction fails under both settings with the
  \<^verbatim>\<open>IndexError\<close> of \<^verbatim>\<open>I[0]\<close> or the \<^verbatim>\<open>ValueError\<close> of \<^verbatim>\<open>min()\<close> or \<^verbatim>\<open>max()\<close>.
  Consequently every \<^verbatim>\<open>ImageBinary\<close> and every particle, as its constructor returns
  it, holds a sample equal to 1: no constructor returns a mask with no foreground.
\<close>

theorem ImageBinary_without_foreground:
  assumes "wf_array px" and "\<forall>x\<in>set (data px). x = c"
  shows "(data px \<noteq> [] \<longrightarrow>
            ImageBinary_init px path True = Inl (AssertionError [])
            \<and> (c \<noteq> 1 \<longrightarrow> ImageBinary_init px path False = Inl (AssertionError []))
            \<and> (c = 1 \<longrightarrow> (\<exists>img. ImageBinary_init px path False = Inr img)))
       \<and> (data px = [] \<longrightarrow>
            (\<forall>b. ImageBinary_init px path b = Inl IndexError
                  \<or> ImageBinary_init px path b = Inl ValueError))
       \<and> (\<forall>qx b img. ImageBinary_init qx path b = Inr img \<longrightarrow>
             (\<exists>p. priv_pixels img = Some p \<and> 1 \<in> set (data p)))
       \<and> (\<forall>qx roi axes P. Particle_init qx roi axes = Inr P \<longrightarrow>
             (\<exists>p. priv_pixels P = Some p \<and> 1 \<in> set (data p)))"
proof (intro conjI allI impI)
  assume "data px \<noteq> []"
  with assms show "ImageBinary_init px path True = Inl (AssertionError [])"
    by (intro ImageBinary_init_all_equal[of px c])
next
  assume "data px \<noteq> []" and "c \<noteq> 1"
  with assms show "ImageBinary_init px path False = Inl (AssertionError [])"
    by (intro ImageBinary_init_all_equal_bypass[of px c])
next
  assume "data px \<noteq> []" and "c = 1"
  with assms show "\<exists>img. ImageBinary_init px path False = Inr img"
    by (intro ImageBinary_init_all_ones) simp_all
next
  fix b
  assume "data px = []"
  then show "ImageBinary_init px path b = Inl IndexError
             \<or> ImageBinary_init px path b = Inl ValueError"
    by (rule ImageBinary_init_empty)
next
  fix qx b img
  assume "ImageBinary_init qx path b = Inr img"
  from ImageBinary_init_Inr[OF this] show "\<exists>p. priv_pixels img = Some p \<and> 1 \<in> set (data p)"
    by (auto dest: np_max_one_in)
next
  fix qx roi axes and P :: Particle
  assume "Particle_init qx roi axes = Inr P"
  then obtain img where "ImageBinary_init qx None (truthy axes) = Inr img"
    and "priv_pixels P = priv_pixels img"
    by (auto simp: Particle_init_def split: if_splits sum.splits)
  with ImageBinary_init_Inr[OF this(1)] show "\<exists>p. priv_pixels P = Some p \<and> 1 \<in> set (data p)"
    by (auto dest: np_max_one_in)
qed

text \<open>
  Two inputs of the theorem: the 2 by 2 array of zeros, refused under both settings, and
  the 2 by 2 array of ones, refused with rebinarization and accepted without.
\<close>

theorem ImageBinary_without_foreground_witness:
  "wf_array \<lparr>shape = [2, 2], data = [0, 0, 0, 0]\<rparr>
   \<and> ImageBinary_init \<lparr>shape = [2, 2], data = [0, 0, 0, 0]\<rparr> None True = Inl (AssertionError [])
   \<and> ImageBinary_init \<lparr>shape = [2, 2], data = [0, 0, 0, 0]\<rparr> None False = Inl (AssertionError [])
   \<and> wf_array \<lparr>shape = [2, 2], data = [1, 1, 1, 1]\<rparr>
   \<and> ImageBinary_init \<lparr>shape = [2, 2], data = [1, 1, 1, 1]\<rparr> None True = Inl (AssertionError [])
   \<and> (\<exists>img. ImageBinary_init \<lparr>shape = [2, 2], data = [1, 1, 1, 1]\<rparr> None False = Inr img)"
proof -
  have h1: "wf_array \<lparr>shape = [2, 2], data = [0, 0, 0, 0]\<rparr>" by (simp add: wf_array_def)
  have h2: "data \<lparr>shape = [2, 2], data = [0, 0, 0, 0]\<rparr> \<noteq> []" by simp
  have h3: "\<forall>x\<in>set (data \<lparr>shape = [2, 2], data = [0, 0, 0, 0]\<rparr>). x = 0" by simp
  have g1: "wf_array \<lparr>shape = [2, 2], data = [1, 1, 1, 1]\<rparr>" by (simp add: wf_array_def)
  have g2: "data \<lparr>shape = [2, 2], data = [1, 1, 1, 1]\<rparr> \<noteq> []" by simp
  have g3: "\<forall>x\<in>set (data \<lparr>shape = [2, 2], data = [1, 1, 1, 1]\<rparr>). x = 1" by simp
  from ImageBinary_without_foreground[OF h1 h3, of None] h2
  have zeros: "ImageBinary_init \<lparr>shape = [2, 2], data = [0, 0, 0, 0]\<rparr> None True
                 = Inl (AssertionError [])
               \<and> ImageBinary_init \<lparr>shape = [2, 2], data = [0, 0, 0, 0]\<rparr> None False
                 = Inl (AssertionError [])"
    by simp
  from ImageBinary_without_foreground[OF g1 g3, of None] g2
  have ones: "ImageBinary_init \<lparr>shape = [2, 2], data = [1, 1, 1, 1]\<rparr> None True
                 = Inl (AssertionError [])
               \<and> (\<exists>img. ImageBinary_init \<lparr>shape = [2, 2], data = [1, 1, 1, 1]\<rparr> None False
                     = Inr img)"
    by simp
  from h1 g1 zeros ones show ?thesis by blast
qed

text \<open>
  As the claim states it, every array of equal samples is refused under both settings,
  with an assertion error, and a mask with no foreground is never represented. The array
  of two ones is accepted when rebinarization is bypassed; \<^verbatim>\<open>invert\<close> then leaves that
  image with a buffer of two zeros, a mask with no foreground. The array of size 0 is
  refused with \<^verbatim>\<open>ValueError\<close>, not with an assertion error.
\<close>

theorem all_ones_mask_accepted_then_emptied:
  "ImageBinary_init \<lparr>shape = [1, 2], data = [1, 1]\<rparr> None False
     = Inr \<lparr> priv_path_to_local = None, priv_pixels = Some \<lparr>shape = [1, 2], data = [1, 1]\<rparr>,
             priv_axes_order = ''TZYX'' \<rparr>
   \<and> invert \<lparr> priv_path_to_local = None, priv_pixels = Some \<lparr>shape = [1, 2], data = [1, 1]\<rparr>,
              priv_axes_order = ''TZYX'' \<rparr>
     = \<lparr> priv_path_to_local = None, priv_pixels = Some \<lparr>shape = [1, 2], data = [0, 0]\<rparr>,
         priv_axes_order = ''TZYX'' \<rparr>
   \<and> ImageBinary_init \<lparr>shape = [0], data = []\<rparr> None True = Inl ValueError"
  by (simp add: ImageBinary_init_def ImageBase_init_def extract_nd.simps np_max_def
      np_min_def rebinarize_def invert_def logical_not_def)

section \<open>Double-precision rounding\<close>

text \<open>
  Rounding leaves every real \<open>m * 2 ^ e\<close> with \<open>\<bar>m\<bar> < 2 ^ 53\<close> and
  \<open>-1074 \<le> e \<le> 971\<close> as it is, and a product of such numbers formed without rounding
  is the exact product.
\<close>

lemma pow2_powr: "pow2 e = 2 powr (real_of_int e)"
proof (cases "0 \<le> e")
  case True
  then have "pow2 e = 2 ^ nat e" by (simp add: pow2_def)
  also have "\<dots> = 2 powr real (nat e)" by (rule powr_realpow[symmetric]) simp
  also from True have "real (nat e) = real_of_int e" by simp
  finally show ?thesis .
next
  case False
  then have "pow2 e = inverse (2 ^ nat (- e))" by (simp add: pow2_def divide_inverse)
  also have "(2::real) ^ nat (- e) = 2 powr real (nat (- e))"
    by (rule powr_realpow[symmetric]) simp
  also have "inverse (2 powr real (nat (- e))) = 2 powr (- real (nat (- e)))"
    by (rule powr_minus[symmetric])
  also from False have "- real (nat (- e)) = real_of_int e" by simp
  finally show ?thesis .
qed

lemma pow2_pos: "0 < pow2 e"
  by (simp add: pow2_powr)

lemma pow2_add: "pow2 (a + b) = pow2 a * pow2 b"
  by (simp add: pow2_powr powr_add)

lemma pow2_less_iff: "pow2 a < pow2 b \<longleftrightarrow> a < b"
  by (simp add: pow2_powr)

lemma pow2_le_iff: "pow2 a \<le> pow2 b \<longleftrightarrow> a \<le> b"
  by (simp add: pow2_powr)

lemma pow2_of_nat: "0 \<le> e \<Longrightarrow> pow2 e = of_int (2 ^ nat e)"
  by (simp add: pow2_def)

lemma round_half_even_of_int: "round_half_even (of_int z) = z"
  by (simp add: round_half_even_def)

lemma binade_SomeD:
  assumes "binade x = Some E"
  shows "-1022 \<le> E" and "E \<le> 1023" and "\<bar>x\<bar> < pow2 (E + 1)"
    and "E = -1022 \<or> pow2 E \<le> \<bar>x\<bar>"
proof -
  let ?xs = "[-1022..1023::int]"
  let ?P = "\<lambda>e. \<bar>x\<bar> < pow2 (e + 1)"
  from assms obtain i where i: "i < length ?xs" "?P (?xs ! i)" "E = ?xs ! i"
      "\<forall>j<i. \<not> ?P (?xs ! j)"
    unfolding binade_def find_Some_iff by blast
  have len: "length ?xs = 2046" by simp
  have nth: "?xs ! k = -1022 + int k" if "k < 2046" for k
    using that by (intro nth_upto) simp
  from i(1) len have i': "i < 2046" by simp
  from i(3) nth[OF i'] have E: "E = -1022 + int i" by simp
  from E i' show "-1022 \<le> E" "E \<le> 1023" by simp_all
  from i(2,3) show "\<bar>x\<bar> < pow2 (E + 1)" by simp
  show "E = -1022 \<or> pow2 E \<le> \<bar>x\<bar>"
  proof (cases i)
    case 0
    with E show ?thesis by simp
  next
    case (Suc j)
    with i' have j: "j < 2046" "j < i" by simp_all
    from i(4) j(2) have "\<not> ?P (?xs ! j)" by blast
    with nth[OF j(1)] have "\<not> \<bar>x\<bar> < pow2 (-1022 + int j + 1)" by simp
    moreover from E Suc have "-1022 + int j + 1 = E" by simp
    ultimately show ?thesis by simp
  qed
qed

lemma binade_exists:
  assumes "\<bar>x\<bar> < pow2 1024"
  shows "\<exists>E. binade x = Some E"
proof (cases "binade x")
  case None
  then have "\<not> (\<exists>e\<in>set [-1022..1023::int]. \<bar>x\<bar> < pow2 (e + 1))"
    unfolding binade_def find_None_iff by blast
  moreover have "(1023::int) \<in> set [-1022..1023]" by simp
  ultimately have "\<not> \<bar>x\<bar> < pow2 (1023 + 1)" by blast
  with assms show ?thesis by simp
next
  case (Some E)
  then show ?thesis by blast
qed

lemma binade_eq:
  assumes "-1022 \<le> E" and "E \<le> 1023" and "\<bar>x\<bar> < pow2 (E + 1)"
    and "E = -1022 \<or> pow2 E \<le> \<bar>x\<bar>"
  shows "binade x = Some E"
proof -
  from assms(2) have "pow2 (E + 1) \<le> pow2 1024" by (simp add: pow2_le_iff)
  with assms(3) have "\<bar>x\<bar> < pow2 1024" by linarith
  from binade_exists[OF this] obtain E' where E': "binade x = Some E'" by blast
  note D = binade_SomeD[OF E']
  have "\<not> E' < E"
  proof
    assume lt: "E' < E"
    with D(1) assms(4) have "pow2 E \<le> \<bar>x\<bar>" by auto
    with D(3) have "pow2 E < pow2 (E' + 1)" by linarith
    then have "E < E' + 1" by (simp add: pow2_less_iff)
    with lt show False by simp
  qed
  moreover have "\<not> E < E'"
  proof
    assume lt: "E < E'"
    with assms(1) D(4) have "pow2 E' \<le> \<bar>x\<bar>" by auto
    with assms(3) have "pow2 E' < pow2 (E + 1)" by linarith
    then have "E' < E + 1" by (simp add: pow2_less_iff)
    with lt show False by simp
  qed
  ultimately have "E' = E" by simp
  with E' show ?thesis by simp
qed

lemma is_double_intro:
  assumes m: "\<bar>m\<bar> < 2 ^ 53" and lo: "-1074 \<le> e" and hi: "e \<le> 971"
  shows "is_double (of_int m * pow2 e)"
proof -
  let ?x = "real_of_int m * pow2 e"
  have ax: "\<bar>?x\<bar> = real_of_int \<bar>m\<bar> * pow2 e"
    using pow2_pos[of e] by (simp add: abs_mult)
  from m have "real_of_int \<bar>m\<bar> < real_of_int (2 ^ 53)" by (simp only: of_int_less_iff)
  then have m': "real_of_int \<bar>m\<bar> < pow2 53" by (simp add: pow2_def)
  then have "real_of_int \<bar>m\<bar> * pow2 e < pow2 53 * pow2 e"
    using pow2_pos[of e] by simp
  then have lt: "\<bar>?x\<bar> < pow2 (53 + e)" by (simp add: ax pow2_add)
  from hi have "pow2 (53 + e) \<le> pow2 1024" by (simp add: pow2_le_iff)
  with lt have small: "\<bar>?x\<bar> < pow2 1024" by linarith
  from binade_exists[OF small] obtain E where E: "binade ?x = Some E" by blast
  note D = binade_SomeD[OF E]
  have Ee: "E - 52 \<le> e"
  proof (cases "E = -1022")
    case True
    with lo show ?thesis by simp
  next
    case False
    with D(4) have "pow2 E \<le> \<bar>?x\<bar>" by simp
    with lt have "pow2 E < pow2 (53 + e)" by linarith
    then show ?thesis by (simp add: pow2_less_iff)
  qed
  define k where "k = nat (e - (E - 52))"
  from Ee have ke: "e = (E - 52) + int k" by (simp add: k_def)
  have "pow2 e = pow2 (E - 52) * pow2 (int k)"
    by (subst ke) (rule pow2_add)
  also have "pow2 (int k) = real_of_int (2 ^ k)" by (simp add: pow2_def)
  finally have pe: "pow2 e = pow2 (E - 52) * real_of_int (2 ^ k)" .
  have nz: "pow2 (E - 52) \<noteq> 0" using pow2_pos[of "E - 52"] by simp
  have q: "?x / pow2 (E - 52) = real_of_int (m * 2 ^ k)"
    using nz by (simp add: pe)
  have r: "real_of_int (round_half_even (?x / pow2 (E - 52))) * pow2 (E - 52) = ?x"
    unfolding q round_half_even_of_int using nz by (simp add: pe)
  from small have ns: "\<not> pow2 1024 \<le> \<bar>?x\<bar>" by simp
  show ?thesis
    unfolding is_double_def round64_def E option.case Let_def r if_not_P[OF ns] ..
qed

lemma is_double_of_nat: "n < 2 ^ 53 \<Longrightarrow> is_double (real n)"
proof -
  assume "n < 2 ^ 53"
  then have "\<bar>int n\<bar> < 2 ^ 53" by simp
  from is_double_intro[OF this, of 0] show ?thesis by (simp add: pow2_def)
qed

lemma np_prod_exact_aux:
  "list_all is_double (partial_products a bs) \<Longrightarrow>
     foldl fmul (Finite a) (map Finite bs) = Finite (a * prod_list bs)"
proof (induction bs arbitrary: a)
  case Nil
  then show ?case by simp
next
  case (Cons b bs)
  from Cons.prems have rest: "list_all is_double (partial_products (a * b) bs)" by simp
  then have "is_double (a * b)" by (cases bs) simp_all
  then have "fmul (Finite a) (Finite b) = Finite (a * b)" by (simp add: is_double_def)
  with Cons.IH[OF rest] show ?case by (simp add: mult.assoc)
qed

lemma np_prod_exact: "products_exact xs \<Longrightarrow> np_prod xs = Finite (prod_list xs)"
  by (cases xs) (simp_all add: products_exact_def np_prod_def np_prod_exact_aux)

lemma is_double_one: "is_double 1"
  using is_double_intro[of 1 0] by (simp add: pow2_def)

lemma round64_eval:
  assumes "-1022 \<le> E" and "E \<le> 1023" and "pow2 E \<le> \<bar>x\<bar>" and "\<bar>x\<bar> < pow2 (E + 1)"
    and "round_half_even (x / pow2 (E - 52)) = z"
    and "\<bar>real_of_int z * pow2 (E - 52)\<bar> < pow2 1024"
  shows "round64 x = Finite (real_of_int z * pow2 (E - 52))"
proof -
  from assms(1,2,3,4) have "binade x = Some E" by (intro binade_eq) simp_all
  with assms(5,6) show ?thesis by (simp add: round64_def Let_def)
qed

section \<open>Volume and shape of a particle\<close>

lemma py_int_of_int: "py_int (of_int k) = k"
  by (simp add: py_int_def)

lemma py_int_Ints: "x \<in> \<int> \<Longrightarrow> real_of_int (py_int x) = x"
  by (auto simp: Ints_def py_int_of_int)

lemma total_size_value:
  assumes "foreground P = Inr n" and "priv_total_size P = None \<or> priv_total_size P = Some n"
  shows "\<exists>P'. total_size P = Inr (n, P') \<and> aspect P' = aspect P \<and> priv_pixels P' = priv_pixels P"
  using assms by (auto simp: total_size_def)

lemma volume_exact:
  assumes "total_size P = Inr (n, P')" and "products_exact (aspect P')"
    and "is_double (real n)" and "is_double (real n * prod_list (aspect P'))"
  shows "volume P = Inr (py_int (real n * prod_list (aspect P')), P')"
proof -
  from assms(2) have "np_prod (aspect P') = Finite (prod_list (aspect P'))"
    by (rule np_prod_exact)
  moreover from assms(3) have "round64 (real n) = Finite (real n)" by (simp add: is_double_def)
  moreover from assms(4)
  have "round64 (real n * prod_list (aspect P')) = Finite (real n * prod_list (aspect P'))"
    by (simp add: is_double_def)
  ultimately show ?thesis using assms(1) by (simp add: volume_def py_int_float_def)
qed

text \<open>
  C7 (amended). For every particle whose cached total size, if there is one, is the
  foreground count \<open>n\<close> of its mask: \<^verbatim>\<open>volume\<close> returns the double-precision product
  of \<open>n\<close> and the product of the aspect ratios, truncated toward zero to an integer
  (the \<^verbatim>\<open>int(...)\<close> of the source). When no multiplication rounds (the count, the
  partial products of the aspect ratios and the final product are doubles), that is the
  exact product \<open>n * prod aspect\<close> truncated toward zero, and the product itself whenever
  the product is an integer. With the aspect (1, 1, 1) and fewer than \<open>2 ^ 53\<close> voxels it
  is the voxel count \<open>n\<close> itself.
\<close>

theorem volume_is_truncated_double_product:
  assumes "foreground P = Inr n" and "priv_total_size P = None \<or> priv_total_size P = Some n"
  shows "(\<exists>P'. volume P =
            (case py_int_float (fmul (round64 (real n)) (np_prod (aspect P))) of
               Inl e \<Rightarrow> Inl e
             | Inr v \<Rightarrow> Inr (v, P')))
       \<and> (products_exact (aspect P) \<and> is_double (real n)
            \<and> is_double (real n * prod_list (aspect P))
          \<longrightarrow> (\<exists>P'. volume P = Inr (py_int (real n * prod_list (aspect P)), P'))
              \<and> (real n * prod_list (aspect P) \<in> \<int> \<longrightarrow>
                   real_of_int (py_int (real n * prod_list (aspect P)))
                     = real n * prod_list (aspect P)))
       \<and> (n < 2 ^ 53 \<and> aspect P = [1, 1, 1] \<longrightarrow> (\<exists>P'. volume P = Inr (int n, P')))"
proof (intro conjI impI)
  from total_size_value[OF assms] obtain P' where
    P': "total_size P = Inr (n, P')" "aspect P' = aspect P" by blast
  then show "\<exists>P'. volume P =
            (case py_int_float (fmul (round64 (real n)) (np_prod (aspect P))) of
               Inl e \<Rightarrow> Inl e
             | Inr v \<Rightarrow> Inr (v, P'))"
    by (intro exI[of _ P']) (simp add: volume_def)
  {
    assume ex: "products_exact (aspect P) \<and> is_double (real n)
            \<and> is_double (real n * prod_list (aspect P))"
    with P' volume_exact[OF P'(1)]
    show "\<exists>P'. volume P = Inr (py_int (real n * prod_list (aspect P)), P')"
      by auto
  }
  {
    assume "real n * prod_list (aspect P) \<in> \<int>"
    then show "real_of_int (py_int (real n * prod_list (aspect P)))
                     = real n * prod_list (aspect P)"
      by (rule py_int_Ints)
  }
  {
    assume a: "n < 2 ^ 53 \<and> aspect P = [1, 1, 1]"
    then have d: "is_double (real n)" by (simp add: is_double_of_nat)
    from a P'(2) have "products_exact (aspect P')"
      by (simp add: products_exact_def is_double_one)
    from volume_exact[OF P'(1) this] d a P'(2)
    have "volume P = Inr (py_int (real n), P')" by simp
    then show "\<exists>P'. volume P = Inr (int n, P')"
      using py_int_of_int[of "int n"] by simp
  }
qed

text \<open>
  Two inputs of the theorem: two voxels with the aspect (1, 1, 1), of volume 2, and three
  voxels with the aspect (2, 1/2, 3), of volume 9.
\<close>

theorem volume_is_truncated_double_product_witness:
  "(\<exists>P'. volume (example_particle \<lparr>shape = [1, 1, 3], data = [1, 0, 1]\<rparr> [1, 1, 1])
            = Inr (2, P'))
   \<and> (\<exists>P'. volume (example_particle \<lparr>shape = [1, 2, 2], data = [1, 0, 1, 1]\<rparr> [2, 1 / 2, 3])
            = Inr (9, P'))"
proof -
  let ?P = "example_particle \<lparr>shape = [1, 1, 3], data = [1, 0, 1]\<rparr> [1, 1, 1]"
  have h1: "foreground ?P = Inr 2" by (simp add: example_particle_def foreground_def)
  have h2: "priv_total_size ?P = None \<or> priv_total_size ?P = Some 2"
    by (simp add: example_particle_def)
  have h3: "(2::nat) < 2 ^ 53 \<and> aspect ?P = [1, 1, 1]" by (simp add: example_particle_def)
  from volume_is_truncated_double_product[OF h1 h2] h3
  have first: "\<exists>P'. volume ?P = Inr (2, P')" by simp
  let ?Q = "example_particle \<lparr>shape = [1, 2, 2], data = [1, 0, 1, 1]\<rparr> [2, 1 / 2, 3]"
  have g1: "foreground ?Q = Inr 3" by (simp add: example_particle_def foreground_def)
  have g2: "priv_total_size ?Q = None \<or> priv_total_size ?Q = Some 3"
    by (simp add: example_particle_def)
  have d1: "is_double 1" using is_double_intro[of 1 0] by (simp add: pow2_def)
  have d2: "is_double 2" using is_double_intro[of 2 0] by (simp add: pow2_def)
  have d3: "is_double 3" using is_double_intro[of 3 0] by (simp add: pow2_def)
  have d9: "is_double 9" using is_double_intro[of 9 0] by (simp add: pow2_def)
  have g3: "products_exact (aspect ?Q) \<and> is_double (real 3)
            \<and> is_double (real 3 * prod_list (aspect ?Q))"
    by (simp add: example_particle_def products_exact_def d1 d2 d3 d9)
  have p: "real 3 * prod_list (aspect ?Q) = 9" by (simp add: example_particle_def)
  from volume_is_truncated_double_product[OF g1 g2] g3
  have "\<exists>P'. volume ?Q = Inr (py_int (real 3 * prod_list (aspect ?Q)), P')" by blast
  then have second: "\<exists>P'. volume ?Q = Inr (9, P')"
    unfolding p using py_int_of_int[of 9] by simp
  from first second show ?thesis by (rule conjI)
qed

text \<open>
  Three particles and their volumes. Three voxels (in a box of 4) with the aspect
  (1/2, 1, 1): every product is exact in double precision, the product is 3/2, the volume
  returned is 1.
\<close>

lemma volume_three_halves:
  "foreground (example_particle \<lparr>shape = [1, 2, 2], data = [1, 0, 1, 1]\<rparr> [1 / 2, 1, 1]) = Inr 3
   \<and> volume (example_particle \<lparr>shape = [1, 2, 2], data = [1, 0, 1, 1]\<rparr> [1 / 2, 1, 1])
       = Inr (1, (example_particle \<lparr>shape = [1, 2, 2], data = [1, 0, 1, 1]\<rparr> [1 / 2, 1, 1])
                   \<lparr> priv_total_size := Some 3 \<rparr>)
   \<and> real_of_int 1 \<noteq>
       real 3 * prod_list (aspect (example_particle \<lparr>shape = [1, 2, 2], data = [1, 0, 1, 1]\<rparr> [1 / 2, 1, 1]))"
proof -
  let ?P = "example_particle \<lparr>shape = [1, 2, 2], data = [1, 0, 1, 1]\<rparr> [1 / 2, 1, 1]"
  let ?P' = "?P\<lparr> priv_total_size := Some 3 \<rparr>"
  have f: "foreground ?P = Inr 3" by (simp add: example_particle_def foreground_def)
  then have t: "total_size ?P = Inr (3, ?P')"
    by (simp add: total_size_def example_particle_def)
  have dh: "is_double (1 / 2)" using is_double_intro[of 1 "-1"] by (simp add: pow2_def)
  have d3: "is_double 3" using is_double_intro[of 3 0] by (simp add: pow2_def)
  have d32: "is_double (3 / 2)" using is_double_intro[of 3 "-1"] by (simp add: pow2_def)
  have a: "aspect ?P' = [1 / 2, 1, 1]" by (simp add: example_particle_def)
  have e1: "products_exact (aspect ?P')" unfolding a by (simp add: products_exact_def dh)
  have e2: "is_double (real 3)" using d3 by simp
  have e3: "is_double (real 3 * prod_list (aspect ?P'))" unfolding a using d32 by simp
  from volume_exact[OF t e1 e2 e3] have "volume ?P = Inr (py_int (real 3 * prod_list (aspect ?P')), ?P')" .
  then have "volume ?P = Inr (py_int (3 / 2), ?P')"
    unfolding a by simp
  moreover have "py_int (3 / 2) = 1" by (simp add: py_int_def)
  ultimately have v: "volume ?P = Inr (1, ?P')" by simp
  have n: "real_of_int 1 \<noteq> real 3 * prod_list (aspect ?P)"
    by (simp add: example_particle_def)
  from f v n show ?thesis by (intro conjI)
qed

text \<open>
  Ten voxels and the aspect 0.7, the double \<open>3152519739159347 / 2 ^ 52\<close>: the exact
  product lies below 7 by less than half a unit in the last place, the float product is
  7.0, and the volume is 7, where the exact product truncates to 6.
\<close>

lemma volume_rounds_as_doubles:
  "volume (example_particle \<lparr>shape = [2, 5], data = [1, 1, 1, 1, 1, 1, 1, 1, 1, 1]\<rparr>
             [3152519739159347 / 4503599627370496])
     = Inr (7, (example_particle \<lparr>shape = [2, 5], data = [1, 1, 1, 1, 1, 1, 1, 1, 1, 1]\<rparr>
             [3152519739159347 / 4503599627370496])\<lparr> priv_total_size := Some 10 \<rparr>)
   \<and> py_int (real 10 * (3152519739159347 / 4503599627370496)) = 6"
proof -
  let ?a = "3152519739159347 / 4503599627370496 :: real"
  let ?P = "example_particle \<lparr>shape = [2, 5], data = [1, 1, 1, 1, 1, 1, 1, 1, 1, 1]\<rparr> [?a]"
  let ?P' = "?P\<lparr> priv_total_size := Some 10 \<rparr>"
  have t: "total_size ?P = Inr (10, ?P')"
    by (simp add: total_size_def example_particle_def foreground_def)
  have a: "aspect ?P' = [?a]" by (simp add: example_particle_def)
  have d10: "round64 (real 10) = Finite 10"
    using is_double_intro[of 10 0] by (simp add: pow2_def is_double_def)
  have fl: "\<lfloor>10 * ?a / pow2 (2 - 52)\<rfloor> = 7881299347898367"
    by (rule floor_unique) (simp_all add: pow2_def)
  have rhe: "round_half_even (10 * ?a / pow2 (2 - 52)) = 7881299347898368"
    unfolding round_half_even_def fl Let_def by (simp add: pow2_def)
  have "round64 (10 * ?a) = Finite (real_of_int 7881299347898368 * pow2 (2 - 52))"
    by (rule round64_eval[OF _ _ _ _ rhe]) (simp_all add: pow2_def)
  also have "real_of_int 7881299347898368 * pow2 (2 - 52) = 7" by (simp add: pow2_def)
  finally have r: "round64 (10 * ?a) = Finite 7" .
  from t a d10 r have v: "volume ?P = Inr (7, ?P')"
    by (simp add: volume_def np_prod_def py_int_float_def py_int_def)
  have "\<lfloor>real 10 * ?a\<rfloor> = 6" by (rule floor_unique) simp_all
  then have "py_int (real 10 * ?a) = 6" by (simp add: py_int_def)
  with v show ?thesis by (intro conjI)
qed

text \<open>
  \<open>2 ^ 53 + 1\<close> voxels with the aspect (1, 1, 1): the count is no double, its
  conversion to a float rounds it (a tie, to the even neighbour) to \<open>2 ^ 53\<close>, and that
  is the volume.
\<close>

lemma volume_of_huge_count:
  "volume (example_particle \<lparr>shape = [9007199254740993], data = replicate 9007199254740993 1\<rparr>
             [1, 1, 1])
     = Inr (9007199254740992,
            (example_particle \<lparr>shape = [9007199254740993], data = replicate 9007199254740993 1\<rparr>
               [1, 1, 1])\<lparr> priv_total_size := Some 9007199254740993 \<rparr>)"
proof -
  let ?P = "example_particle \<lparr>shape = [9007199254740993], data = replicate 9007199254740993 1\<rparr>
             [1, 1, 1]"
  let ?P' = "?P\<lparr> priv_total_size := Some 9007199254740993 \<rparr>"
  have t: "total_size ?P = Inr (9007199254740993, ?P')"
    by (simp add: total_size_def example_particle_def foreground_def)
  have p: "np_prod [1, 1, 1] = Finite 1"
    using np_prod_exact[of "[1, 1, 1]"] by (simp add: products_exact_def is_double_one)
  have fl: "\<lfloor>real 9007199254740993 / pow2 (53 - 52)\<rfloor> = 4503599627370496"
    by (rule floor_unique) (simp_all add: pow2_def)
  have rhe: "round_half_even (real 9007199254740993 / pow2 (53 - 52)) = 4503599627370496"
    unfolding round_half_even_def fl Let_def by (simp add: pow2_def)
  have "round64 (real 9007199254740993) = Finite (real_of_int 4503599627370496 * pow2 (53 - 52))"
    by (rule round64_eval[OF _ _ _ _ rhe]) (simp_all add: pow2_def)
  also have "real_of_int 4503599627370496 * pow2 (53 - 52) = 9007199254740992"
    by (simp add: pow2_def)
  finally have n: "round64 (real 9007199254740993) = Finite 9007199254740992" .
  have "is_double (real_of_int 1 * pow2 53)" by (rule is_double_intro) simp_all
  then have r: "round64 9007199254740992 = Finite 9007199254740992"
    by (simp add: is_double_def pow2_def)
  from t n have "volume ?P = Inr (9007199254740992, ?P')"
    by (simp add: volume_def example_particle_def p r py_int_float_def py_int_def)
  then show ?thesis .
qed

text \<open>
  As the claim states it, the volume is the voxel count times the product of the aspect
  ratios, and the voxel count itself with the aspect (1, 1, 1). The three particles
  above: the volume 1 for the product 3/2; the volume 7 for a product below 7; the volume
  \<open>2 ^ 53\<close> for \<open>2 ^ 53 + 1\<close> voxels of aspect (1, 1, 1).
\<close>

theorem volume_not_exact_product:
  "volume (example_particle \<lparr>shape = [1, 2, 2], data = [1, 0, 1, 1]\<rparr> [1 / 2, 1, 1])
       = Inr (1, (example_particle \<lparr>shape = [1, 2, 2], data = [1, 0, 1, 1]\<rparr> [1 / 2, 1, 1])
                   \<lparr> priv_total_size := Some 3 \<rparr>)
   \<and> foreground (example_particle \<lparr>shape = [1, 2, 2], data = [1, 0, 1, 1]\<rparr> [1 / 2, 1, 1])
       = Inr 3
   \<and> real_of_int 1 \<noteq> real 3 * prod_list [1 / 2, 1, 1]
   \<and> volume (example_particle \<lparr>shape = [2, 5], data = [1, 1, 1, 1, 1, 1, 1, 1, 1, 1]\<rparr>
               [3152519739159347 / 4503599627370496])
       = Inr (7, (example_particle \<lparr>shape = [2, 5], data = [1, 1, 1, 1, 1, 1, 1, 1, 1, 1]\<rparr>
                    [3152519739159347 / 4503599627370496])\<lparr> priv_total_size := Some 10 \<rparr>)
   \<and> foreground (example_particle \<lparr>shape = [2, 5], data = [1, 1, 1, 1, 1, 1, 1, 1, 1, 1]\<rparr>
                   [3152519739159347 / 4503599627370496])
       = Inr 10
   \<and> real_of_int 7 \<noteq> real 10 * prod_list [3152519739159347 / 4503599627370496]
   \<and> py_int (real 10 * prod_list [3152519739159347 / 4503599627370496]) = 6
   \<and> volume (example_particle
               \<lparr>shape = [9007199254740993], data = replicate 9007199254740993 1\<rparr> [1, 1, 1])
       = Inr (9007199254740992,
              (example_particle
                 \<lparr>shape = [9007199254740993], data = replicate 9007199254740993 1\<rparr> [1, 1, 1])
                \<lparr> priv_total_size := Some 9007199254740993 \<rparr>)
   \<and> foreground (example_particle
                   \<lparr>shape = [9007199254740993], data = replicate 9007199254740993 1\<rparr> [1, 1, 1])
       = Inr 9007199254740993"
proof -
  have f10: "foreground (example_particle \<lparr>shape = [2, 5], data = [1, 1, 1, 1, 1, 1, 1, 1, 1, 1]\<rparr>
                   [3152519739159347 / 4503599627370496]) = Inr 10"
    by (simp add: example_particle_def foreground_def)
  have fh: "foreground (example_particle
                   \<lparr>shape = [9007199254740993], data = replicate 9007199254740993 1\<rparr> [1, 1, 1])
       = Inr 9007199254740993"
    by (simp add: example_particle_def foreground_def)
  have n3: "real_of_int 1 \<noteq> real 3 * prod_list [1 / 2, 1, 1]" by simp
  have n7: "real_of_int 7 \<noteq> real 10 * prod_list [3152519739159347 / 4503599627370496]"
    by simp
  have p6: "py_int (real 10 * prod_list [3152519739159347 / 4503599627370496]) = 6"
    using conjunct2[OF volume_rounds_as_doubles] by simp
  from conjunct1[OF conjunct2[OF volume_three_halves]] conjunct1[OF volume_three_halves]
    n3 conjunct1[OF volume_rounds_as_doubles] f10 n7 p6 volume_of_huge_count fh
  show ?thesis by (intro conjI)
qed

lemma hull_count:
  "list_all2 (\<lambda>h m. h = 1 \<or> (h = 0 \<and> m = 0)) hs ms \<Longrightarrow>
     int (length (filter (\<lambda>v. v \<noteq> 0) ms)) \<le> sum_list hs
     \<and> (sum_list hs = int (length (filter (\<lambda>v. v \<noteq> 0) ms))
          \<longleftrightarrow> list_all2 (\<lambda>h m. (h = 1) = (m \<noteq> 0)) hs ms)"
  by (induction hs ms rule: list_all2_induct) (auto simp: )

text \<open>
  C8. \<^verbatim>\<open>convex_hull_image\<close> is the library's; what is used of it is that the hull
  image is a 0/1 image that contains the mask. For a 2D particle with \<open>n > 0\<close>
  foreground pixels (and a cached size, if any, equal to \<open>n\<close>), \<^verbatim>\<open>shape_descriptor\<close>
  returns \<open>n\<close> divided by the number of pixels of the hull image; this ratio lies in
  (0, 1], and it is 1 exactly when the hull image is the mask itself (the occupancy is
  its own convex hull). For a particle whose mask has neither 2 nor 3 axes it returns 0.
\<close>

theorem shape_descriptor_2d_ratio:
  assumes "priv_pixels P = Some px" and "foreground P = Inr n"
  shows "(length (shape px) = 2 \<and> 0 < n
            \<and> (priv_total_size P = None \<or> priv_total_size P = Some n)
            \<and> list_all2 (\<lambda>h m. h = 1 \<or> (h = 0 \<and> m = 0)) (data (convex_hull_image px)) (data px)
          \<longrightarrow> (\<exists>r P'. shape_descriptor convex_hull_image mesh_area P = Inr (Some r, P')
                  \<and> r = real n / real_of_int (sum_list (data (convex_hull_image px)))
                  \<and> 0 < r \<and> r \<le> 1
                  \<and> (r = 1 \<longleftrightarrow>
                       list_all2 (\<lambda>h m. (h = 1) = (m \<noteq> 0)) (data (convex_hull_image px)) (data px))))
       \<and> (length (shape px) \<noteq> 2 \<and> length (shape px) \<noteq> 3
          \<longrightarrow> shape_descriptor convex_hull_image mesh_area P = Inr (Some 0, P))"
proof (intro conjI impI)
  assume a: "length (shape px) = 2 \<and> 0 < n
            \<and> (priv_total_size P = None \<or> priv_total_size P = Some n)
            \<and> list_all2 (\<lambda>h m. h = 1 \<or> (h = 0 \<and> m = 0)) (data (convex_hull_image px)) (data px)"
  let ?s = "sum_list (data (convex_hull_image px))"
  from assms have n: "n = length (filter (\<lambda>v. v \<noteq> 0) (data px))"
    by (simp add: foreground_def)
  from a hull_count[of "data (convex_hull_image px)" "data px"] n
  have le: "int n \<le> ?s"
    and eq: "?s = int n \<longleftrightarrow>
       list_all2 (\<lambda>h m. (h = 1) = (m \<noteq> 0)) (data (convex_hull_image px)) (data px)"
    by auto
  from a le have pos: "0 < ?s" by linarith
  from a assms(2) total_size_value[of P n] obtain P' where
    P': "total_size P = Inr (n, P')" by blast
  let ?r = "real n / real_of_int ?s"
  from assms(1) a P' pos
  have "shape_descriptor convex_hull_image mesh_area P = Inr (Some ?r, P')"
    by (simp add: shape_descriptor_def np_divide_def)
  moreover from a pos have "0 < ?r" by simp
  moreover from le pos have "?r \<le> 1" by simp
  moreover from pos have "?r = 1 \<longleftrightarrow> ?s = int n"
    by (auto simp: field_simps)
  ultimately show "\<exists>r P'. shape_descriptor convex_hull_image mesh_area P = Inr (Some r, P')
                  \<and> r = real n / real_of_int (sum_list (data (convex_hull_image px)))
                  \<and> 0 < r \<and> r \<le> 1
                  \<and> (r = 1 \<longleftrightarrow>
                       list_all2 (\<lambda>h m. (h = 1) = (m \<noteq> 0)) (data (convex_hull_image px)) (data px))"
    using eq by blast
next
  assume "length (shape px) \<noteq> 2 \<and> length (shape px) \<noteq> 3"
  with assms(1) show "shape_descriptor convex_hull_image mesh_area P = Inr (Some 0, P)"
    by (simp add: shape_descriptor_def)
qed

theorem shape_descriptor_2d_ratio_witness:
  "(\<exists>P'. shape_descriptor (\<lambda>p. p\<lparr>data := map (\<lambda>v. 1) (data p)\<rparr>) (\<lambda>p a. 1)
            (example_particle \<lparr>shape = [2, 2], data = [1, 0, 0, 1]\<rparr> [1, 1])
          = Inr (Some (1 / 2), P'))
   \<and> shape_descriptor (\<lambda>p. p\<lparr>data := map (\<lambda>v. 1) (data p)\<rparr>) (\<lambda>p a. 1)
        (example_particle \<lparr>shape = [3], data = [1, 0, 1]\<rparr> [1])
      = Inr (Some 0, example_particle \<lparr>shape = [3], data = [1, 0, 1]\<rparr> [1])"
proof -
  let ?H = "\<lambda>p. p\<lparr>data := map (\<lambda>v. 1::int) (data p)\<rparr>"
  let ?M = "\<lambda>(p::ndarray) (a::real list). 1::real"
  let ?px = "\<lparr>shape = [2, 2], data = [1, 0, 0, 1]\<rparr>"
  let ?P = "example_particle ?px [1, 1]"
  let ?qx = "\<lparr>shape = [3], data = [1, 0, 1]\<rparr>"
  let ?Q = "example_particle ?qx [1]"
  have p1: "priv_pixels ?P = Some ?px" by (simp add: example_particle_def)
  have p2: "foreground ?P = Inr 2" by (simp add: example_particle_def foreground_def)
  have p3: "length (shape ?px) = 2 \<and> 0 < (2::nat)
            \<and> (priv_total_size ?P = None \<or> priv_total_size ?P = Some 2)
            \<and> list_all2 (\<lambda>h m. h = 1 \<or> (h = 0 \<and> m = 0)) (data (?H ?px)) (data ?px)"
    by (simp add: example_particle_def)
  have q1: "priv_pixels ?Q = Some ?qx" by (simp add: example_particle_def)
  have q2: "foreground ?Q = Inr 2" by (simp add: example_particle_def foreground_def)
  have q3: "length (shape ?qx) \<noteq> 2 \<and> length (shape ?qx) \<noteq> 3" by simp
  from shape_descriptor_2d_ratio[OF p1 p2, of ?H ?M] p3
  have "\<exists>P'. shape_descriptor ?H ?M ?P = Inr (Some (1 / 2), P')" by auto
  moreover from shape_descriptor_2d_ratio[OF q1 q2, of ?H ?M] q3
  have "shape_descriptor ?H ?M ?Q = Inr (Some 0, ?Q)" by blast
  ultimately show ?thesis by blast
qed

section \<open>Connected components: regions and their first samples\<close>

lemma length_unravel [simp]: "length (unravel sh p) = length sh"
  by (induction sh arbitrary: p) auto

lemma neighbours_sym: "neighbours sh p q \<Longrightarrow> neighbours sh q p"
  unfolding neighbours_def by (auto simp: list_all2_conv_all_nth)

lemma adjacent_iff:
  "(p, q) \<in> adjacent A \<longleftrightarrow>
     p < length (data A) \<and> q < length (data A) \<and> neighbours (shape A) p q
     \<and> data A ! p = data A ! q \<and> data A ! p \<noteq> 0"
  by (auto simp: adjacent_def)

lemma sym_adjacent: "sym (adjacent A)"
proof (rule symI)
  fix p q assume "(p, q) \<in> adjacent A"
  then show "(q, p) \<in> adjacent A"
    using neighbours_sym[of "shape A" p q] by (simp add: adjacent_iff)
qed

lemma trancl_adjacent_props:
  "(p, q) \<in> (adjacent A)\<^sup>+ \<Longrightarrow>
     p < length (data A) \<and> q < length (data A) \<and> data A ! p = data A ! q \<and> data A ! p \<noteq> 0"
  by (induction rule: trancl.induct) (auto simp: adjacent_iff)

lemma connected_refl [simp]: "connected A p p"
  by (simp add: connected_def)

lemma connected_sym: "connected A p q \<Longrightarrow> connected A q p"
proof -
  assume a: "connected A p q"
  have "sym ((adjacent A)\<^sup>+)" using sym_adjacent by (rule sym_trancl)
  with a show ?thesis unfolding connected_def by (blast dest: symD)
qed

lemma connected_trans: "connected A p q \<Longrightarrow> connected A q r \<Longrightarrow> connected A p r"
  by (auto simp: connected_def intro: trancl_trans)

lemma connected_adjacent: "(p, q) \<in> adjacent A \<Longrightarrow> connected A p q"
  unfolding connected_def by (rule disjI2) (rule r_into_trancl)

lemma connected_props:
  "connected A p q \<Longrightarrow> p < length (data A) \<Longrightarrow>
     q < length (data A) \<and> data A ! p = data A ! q"
  by (auto simp: connected_def dest: trancl_adjacent_props)

lemma connected_eq:
  assumes "connected A p q"
  shows "connected A p = connected A q"
proof
  fix r
  from assms have qp: "connected A q p" by (rule connected_sym)
  show "connected A p r = connected A q r"
    using connected_trans[OF qp, of r] connected_trans[OF assms, of r] by blast
qed

lemma root_props:
  assumes "p < length (data A)"
  shows "connected A p (root A p)" and "root A p \<le> p" and "root A p < length (data A)"
    and "\<And>j. j < root A p \<Longrightarrow> \<not> connected A p j"
proof -
  have "List.find (connected A p) [0..<length (data A)] \<noteq> None"
    using assms by (auto simp: find_None_iff)
  then obtain r where r: "List.find (connected A p) [0..<length (data A)] = Some r" by auto
  then have rt: "root A p = r" by (simp add: root_def)
  from r obtain i where i: "i < length [0..<length (data A)]" "connected A p ([0..<length (data A)] ! i)"
    "r = [0..<length (data A)] ! i" "\<forall>j<i. \<not> connected A p ([0..<length (data A)] ! j)"
    unfolding find_Some_iff by blast
  then have ri: "r = i" "i < length (data A)" by auto
  with i rt show "connected A p (root A p)" by simp
  from ri rt show "root A p < length (data A)" by simp
  show "root A p \<le> p"
  proof (rule ccontr)
    assume "\<not> root A p \<le> p"
    with rt ri have "p < i" by simp
    with i(4) assms have "\<not> connected A p p" by auto
    then show False by simp
  qed
  fix j assume "j < root A p"
  with rt ri i(4) show "\<not> connected A p j" by auto
qed

lemma root_cong:
  assumes "connected A p q"
  shows "root A p = root A q"
proof (cases "p = q")
  case True
  then show ?thesis by simp
next
  case False
  with assms have "(p, q) \<in> (adjacent A)\<^sup>+" by (simp add: connected_def)
  then have "q < length (data A)" by (auto dest: trancl_adjacent_props)
  then have "List.find (connected A q) [0..<length (data A)] \<noteq> None"
    by (auto simp: find_None_iff)
  with connected_eq[OF assms] show ?thesis by (auto simp: root_def)
qed

lemma root_idem: "p < length (data A) \<Longrightarrow> root A (root A p) = root A p"
  using root_cong[OF root_props(1), of p A] by simp

lemma root_value: "p < length (data A) \<Longrightarrow> data A ! root A p = data A ! p"
  using connected_props[OF root_props(1), of p A] by simp

lemma is_root_root:
  "p < length (data A) \<Longrightarrow> data A ! p \<noteq> 0 \<Longrightarrow> is_root A (root A p)"
  by (simp add: is_root_def root_props(3) root_idem root_value)

lemma same_root_connected:
  assumes "p < length (data A)" "q < length (data A)" "root A p = root A q"
  shows "connected A p q"
proof -
  from assms(1) have "connected A p (root A p)" by (rule root_props(1))
  then have 1: "connected A p (root A q)" by (simp only: assms(3))
  from assms(2) have "connected A q (root A q)" by (rule root_props(1))
  then have 2: "connected A (root A q) q" by (rule connected_sym)
  from 1 2 show ?thesis by (rule connected_trans)
qed

section \<open>Connected components: the labels\<close>

lemma rank_pos: "is_root A r \<Longrightarrow> 0 < length (filter (is_root A) [0..<Suc r])"
proof -
  assume "is_root A r"
  then have "r \<in> set (filter (is_root A) [0..<Suc r])" by simp
  then show ?thesis by (simp only: length_pos_if_in_set)
qed

lemma rank_strict_mono:
  assumes "r1 < r2" "is_root A r2"
  shows "length (filter (is_root A) [0..<Suc r1]) < length (filter (is_root A) [0..<Suc r2])"
proof -
  from assms(1) have "Suc r2 = Suc r1 + (r2 - r1)" by simp
  then have "[0..<Suc r2] = [0..<Suc r1] @ [Suc r1..<Suc r2]"
    using upt_add_eq_append[of 0 "Suc r1" "r2 - r1"] by simp
  then have eq: "filter (is_root A) [0..<Suc r2]
      = filter (is_root A) [0..<Suc r1] @ filter (is_root A) [Suc r1..<Suc r2]"
    by (simp only: filter_append)
  from assms have "r2 \<in> set (filter (is_root A) [Suc r1..<Suc r2])" by simp
  then have "0 < length (filter (is_root A) [Suc r1..<Suc r2])"
    by (simp only: length_pos_if_in_set)
  with eq show ?thesis by simp
qed

lemma rank_inj:
  assumes "is_root A r1" "is_root A r2"
    and "length (filter (is_root A) [0..<Suc r1]) = length (filter (is_root A) [0..<Suc r2])"
  shows "r1 = r2"
proof (rule ccontr)
  assume "r1 \<noteq> r2"
  then consider "r1 < r2" | "r2 < r1" by linarith
  then show False
  proof cases
    case 1
    from rank_strict_mono[OF 1 assms(2)] assms(3) show False by simp
  next
    case 2
    from rank_strict_mono[OF 2 assms(1)] assms(3) show False by simp
  qed
qed

lemma label_shape [simp]: "shape (label A) = shape A"
  by (simp add: label_def)

lemma label_length [simp]: "length (data (label A)) = length (data A)"
  by (simp add: label_def)

lemma label_nth:
  "p < length (data A) \<Longrightarrow>
     data (label A) ! p =
       (if data A ! p = 0 then 0
        else int (length (filter (is_root A) [0..<Suc (root A p)])))"
  by (simp add: label_def)

lemma label_zero_iff:
  assumes "p < length (data A)"
  shows "data (label A) ! p = 0 \<longleftrightarrow> data A ! p = 0"
proof (cases "data A ! p = 0")
  case True
  with assms show ?thesis by (simp add: label_nth)
next
  case False
  with assms have "is_root A (root A p)" by (simp add: is_root_root)
  then have "0 < length (filter (is_root A) [0..<Suc (root A p)])" by (rule rank_pos)
  then have "int (length (filter (is_root A) [0..<Suc (root A p)])) \<noteq> 0" by linarith
  moreover from assms False have "data (label A) ! p
      = int (length (filter (is_root A) [0..<Suc (root A p)]))"
    by (simp only: label_nth if_False)
  ultimately show ?thesis using False by simp
qed

lemma label_eq_iff:
  assumes "p < length (data A)" "q < length (data A)" "data A ! p \<noteq> 0" "data A ! q \<noteq> 0"
  shows "data (label A) ! p = data (label A) ! q \<longleftrightarrow> connected A p q"
proof
  assume "connected A p q"
  then have "root A p = root A q" by (rule root_cong)
  with assms show "data (label A) ! p = data (label A) ! q" by (simp add: label_nth)
next
  assume eq: "data (label A) ! p = data (label A) ! q"
  from assms have rp: "is_root A (root A p)" and rq: "is_root A (root A q)"
    by (simp_all add: is_root_root)
  from eq assms have "length (filter (is_root A) [0..<Suc (root A p)])
      = length (filter (is_root A) [0..<Suc (root A q)])"
    by (simp add: label_nth)
  with rp rq have "root A p = root A q" by (rule rank_inj)
  with assms(1,2) show "connected A p q" by (rule same_root_connected)
qed

lemma adjacent_label: "adjacent (label A) = adjacent A"
proof (rule set_eqI, rule prod_cases)
  fix p q
  show "(p, q) \<in> adjacent (label A) \<longleftrightarrow> (p, q) \<in> adjacent A"
  proof
    assume a: "(p, q) \<in> adjacent A"
    then have pq: "p < length (data A)" "q < length (data A)" "neighbours (shape A) p q"
      "data A ! p = data A ! q" "data A ! p \<noteq> 0"
      by (simp_all add: adjacent_iff)
    from a have "connected A p q" by (rule connected_adjacent)
    with pq have "data (label A) ! p = data (label A) ! q" by (simp add: label_eq_iff)
    moreover from pq have "data (label A) ! p \<noteq> 0" by (simp add: label_zero_iff)
    ultimately show "(p, q) \<in> adjacent (label A)" using pq by (simp add: adjacent_iff)
  next
    assume "(p, q) \<in> adjacent (label A)"
    then have pq: "p < length (data A)" "q < length (data A)" "neighbours (shape A) p q"
      "data (label A) ! p = data (label A) ! q" "data (label A) ! p \<noteq> 0"
      by (simp_all add: adjacent_iff)
    from pq(1,5) have nzp: "data A ! p \<noteq> 0" using label_zero_iff[of p A] by simp
    from pq(4,5) have "data (label A) ! q \<noteq> 0" by simp
    with pq(2) have nzq: "data A ! q \<noteq> 0" using label_zero_iff[of q A] by simp
    note nz = nzp nzq
    with pq have "connected A p q" by (simp add: label_eq_iff)
    with pq(1) have "data A ! p = data A ! q" by (simp add: connected_props)
    with pq nz show "(p, q) \<in> adjacent A" by (simp add: adjacent_iff)
  qed
qed

lemma connected_label: "connected (label A) = connected A"
  by (simp add: fun_eq_iff connected_def adjacent_label)

lemma root_label: "root (label A) = root A"
  by (simp add: fun_eq_iff root_def connected_label)

lemma is_root_label: "is_root (label A) = is_root A"
proof
  fix r
  show "is_root (label A) r = is_root A r"
    by (auto simp: is_root_def root_label label_zero_iff)
qed

lemma label_idem: "label (label A) = label A"
proof -
  have d: "data (label (label A)) = data (label A)"
  proof (rule nth_equalityI)
    show "length (data (label (label A))) = length (data (label A))" by simp
  next
    fix p assume "p < length (data (label (label A)))"
    then have p: "p < length (data A)" by simp
    then have "data (label (label A)) ! p =
       (if data (label A) ! p = 0 then 0
        else int (length (filter (is_root A) [0..<Suc (root A p)])))"
      using label_nth[of p "label A"] by (simp add: is_root_label root_label)
    with p show "data (label (label A)) ! p = data (label A) ! p"
      by (simp add: label_zero_iff label_nth)
  qed
  show ?thesis
  proof (rule ndarray.equality)
    show "shape (label (label A)) = shape (label A)" by simp
    show "data (label (label A)) = data (label A)" by (rule d)
    show "ndarray.more (label (label A)) = ndarray.more (label A)" by (simp add: label_def)
  qed
qed

section \<open>Border clearing\<close>

lemma zero_label_data:
  "data (zero_label lab L) = map (\<lambda>v. if v = lab then 0 else v) (data L)"
  by (simp add: zero_label_def)

lemma zero_label_shape [simp]: "shape (zero_label lab L) = shape L"
  by (simp add: zero_label_def)

lemma fold_zero_label_shape [simp]: "shape (fold zero_label labs L) = shape L"
  by (induction labs arbitrary: L) auto

lemma fold_zero_label:
  "data (fold zero_label labs L) = map (\<lambda>v. if v \<in> set labs then 0 else v) (data L)"
proof (induction labs arbitrary: L)
  case Nil
  then show ?case by (simp add: map_idI)
next
  case (Cons l labs)
  have "data (fold zero_label (l # labs) L) = data (fold zero_label labs (zero_label l L))"
    by simp
  also have "\<dots> = map (\<lambda>v. if v \<in> set labs then 0 else v) (data (zero_label l L))"
    by (rule Cons.IH)
  also have "\<dots> = map (\<lambda>v. if v \<in> set (l # labs) then 0 else v) (data L)"
    by (simp add: zero_label_data)
  finally show ?case .
qed

lemma clear_labels_shape [simp]: "shape (clear_labels labs L) = shape L"
  by (simp add: clear_labels_def)

lemma clear_labels_data:
  "data (clear_labels labs L) = map (\<lambda>v. if v \<in> set labs then 0 else v) (data L)"
  by (simp add: clear_labels_def fold_zero_label)

lemma clear_labels_length [simp]: "length (data (clear_labels labs L)) = length (data L)"
  by (simp add: clear_labels_data)

lemma clear_labels_nth:
  "p < length (data L) \<Longrightarrow>
     data (clear_labels labs L) ! p = (if data L ! p \<in> set labs then 0 else data L ! p)"
  by (simp add: clear_labels_data)

lemma zero_label_zero: "zero_label 0 L = L"
proof -
  have "map (\<lambda>v. if v = 0 then 0 else v) (data L) = data L" by (simp add: map_idI)
  then show ?thesis by (simp add: zero_label_def)
qed

lemma fold_zero_label_zero: "\<forall>v\<in>set labs. v = 0 \<Longrightarrow> fold zero_label labs L = L"
  by (induction labs arbitrary: L) (auto simp: zero_label_zero)

lemma clear_labels_zero: "\<forall>v\<in>set labs. v = 0 \<Longrightarrow> clear_labels labs L = L"
  by (simp add: clear_labels_def fold_zero_label_zero)

lemma set_np_unique [simp]: "set (np_unique xs) = set xs"
  by (simp add: np_unique_def)

lemma take_face_Inr:
  "take_face L axis at_end = Inr f \<Longrightarrow>
     shape L ! axis \<noteq> 0 \<and> set f = (\<lambda>p. data L ! p) ` {p. p < length (data L) \<and> at_face (shape L) axis at_end p}"
  by (auto simp: take_face_def split: if_splits)

lemma take_face_ok:
  "shape L ! axis \<noteq> 0 \<Longrightarrow> \<exists>f. take_face L axis at_end = Inr f"
  by (simp add: take_face_def)

lemma take_face_shape_cong:
  "shape L' = shape L \<Longrightarrow> take_face L axis at_end = Inr f \<Longrightarrow>
     \<exists>f'. take_face L' axis at_end = Inr f'"
  by (auto simp: take_face_def split: if_splits)

lemma collect_border_labels_Inr:
  "collect_border_labels L faces acc = Inr labs \<Longrightarrow>
     set labs = set acc \<union> (\<Union>(axis, at_end)\<in>set faces. (\<lambda>p. data L ! p) ` {p. p < length (data L) \<and> at_face (shape L) axis at_end p})"
proof (induction faces arbitrary: acc)
  case Nil
  then show ?case by simp
next
  case (Cons face faces)
  obtain axis at_end where face: "face = (axis, at_end)" by (cases face)
  from Cons.prems face obtain f where f: "take_face L axis at_end = Inr f"
    and rest: "collect_border_labels L faces (acc @ np_unique f) = Inr labs"
    by (auto split: sum.splits)
  from take_face_Inr[OF f] have sf: "set f = (\<lambda>p. data L ! p) ` {p. p < length (data L) \<and> at_face (shape L) axis at_end p}"
    by simp
  from Cons.IH[OF rest] sf face show ?case by auto
qed

lemma collect_border_labels_shape_cong:
  "shape L' = shape L \<Longrightarrow> collect_border_labels L faces acc = Inr labs \<Longrightarrow>
     \<exists>labs'. collect_border_labels L' faces acc' = Inr labs'"
proof (induction faces arbitrary: acc acc')
  case Nil
  then show ?case by simp
next
  case (Cons face faces)
  obtain axis at_end where face: "face = (axis, at_end)" by (cases face)
  from Cons.prems face obtain f where f: "take_face L axis at_end = Inr f"
    and rest: "collect_border_labels L faces (acc @ np_unique f) = Inr labs"
    by (auto split: sum.splits)
  from take_face_shape_cong[OF Cons.prems(1) f] obtain f' where
    f': "take_face L' axis at_end = Inr f'" by blast
  from Cons.IH[OF Cons.prems(1) rest, of "acc' @ np_unique f'"] f' face
  show ?case by auto
qed

text \<open>The common body of the two 3D branches, for any list of faces.\<close>

lemma face_clearing_once:
  assumes "collect_border_labels L faces [] = Inr labs"
    and "p < length (data L)"
  shows "data (label (clear_labels labs L)) ! p \<noteq> 0 \<longleftrightarrow>
           data L ! p \<noteq> 0 \<and> data L ! p \<notin> set labs"
  using assms(2) by (simp add: label_zero_iff clear_labels_nth)

lemma face_clearing_twice:
  assumes c: "collect_border_labels L faces [] = Inr labs"
    and c': "collect_border_labels (label (clear_labels labs L)) faces [] = Inr labs'"
  shows "label (clear_labels labs' (label (clear_labels labs L))) = label (clear_labels labs L)"
proof -
  let ?R = "label (clear_labels labs L)"
  have "\<forall>v\<in>set labs'. v = 0"
  proof
    fix v assume "v \<in> set labs'"
    with collect_border_labels_Inr[OF c'] obtain axis at_end p where
      f: "(axis, at_end) \<in> set faces" and pl: "p < length (data L)"
      and pc: "at_face (shape L) axis at_end p"
      and v: "v = data ?R ! p"
      by auto
    with collect_border_labels_Inr[OF c] have "data L ! p \<in> set labs" by auto
    with pl have "data (clear_labels labs L) ! p = 0" by (simp add: clear_labels_nth)
    with pl have "data ?R ! p = 0" by (simp add: label_zero_iff)
    with v show "v = 0" by simp
  qed
  then have "clear_labels labs' ?R = ?R" by (rule clear_labels_zero)
  then show ?thesis by (simp add: label_idem)
qed

lemma face_clearing_idempotent:
  "(case (case collect_border_labels L faces [] of
            Inl e \<Rightarrow> Inl e
          | Inr labs \<Rightarrow> Inr (label (clear_labels labs L))) of
      Inl e \<Rightarrow> Inl e
    | Inr R \<Rightarrow>
        (case collect_border_labels R faces [] of
           Inl e \<Rightarrow> Inl e
         | Inr labs' \<Rightarrow> Inr (label (clear_labels labs' R))))
   = (case collect_border_labels L faces [] of
        Inl e \<Rightarrow> Inl e
      | Inr labs \<Rightarrow> Inr (label (clear_labels labs L)))"
proof (cases "collect_border_labels L faces []")
  case (Inl e)
  then show ?thesis by simp
next
  case (Inr labs)
  let ?R = "label (clear_labels labs L)"
  have "shape ?R = shape L" by simp
  from collect_border_labels_shape_cong[OF this Inr, of "[]"] obtain labs' where
    c': "collect_border_labels ?R faces [] = Inr labs'" by blast
  from face_clearing_twice[OF Inr c'] Inr c' show ?thesis by simp
qed

lemma collect_border_labels_ok:
  "\<forall>(axis, at_end)\<in>set faces. shape L ! axis \<noteq> 0 \<Longrightarrow>
     \<exists>labs. collect_border_labels L faces acc = Inr labs"
proof (induction faces arbitrary: acc)
  case Nil
  then show ?case by simp
next
  case (Cons face faces)
  obtain axis at_end where face: "face = (axis, at_end)" by (cases face)
  with Cons.prems have "shape L ! axis \<noteq> 0" by simp
  from take_face_ok[OF this, of at_end] obtain f where f: "take_face L axis at_end = Inr f"
    by blast
  from Cons.prems have "\<forall>(axis, at_end)\<in>set faces. shape L ! axis \<noteq> 0" by simp
  from Cons.IH[OF this, of "acc @ np_unique f"] f face show ?case by auto
qed

lemma clear_border_Inr:
  assumes "clear_border A = Inr R"
  shows "shape R = shape A" and "length (data R) = length (data A)"
    and "\<And>p. p < length (data A) \<Longrightarrow>
           data R ! p =
             (if data (label A) ! p
                   \<in> (\<lambda>q. data (label A) ! q) ` {q. q < length (data A) \<and> on_border (shape A) q}
              then 0 else data A ! p)"
    and "\<not> list_ex (\<lambda>n. n = 0) (shape A)"
  using assms by (auto simp: clear_border_def Let_def split: if_splits)

lemma clear_border_idem:
  assumes "clear_border A = Inr R"
  shows "clear_border R = Inr R"
proof -
  note R = clear_border_Inr[OF assms]
  let ?B = "(\<lambda>q. data (label R) ! q) ` {q. q < length (data R) \<and> on_border (shape R) q}"
  have border_zero: "data R ! q = 0" if "q < length (data A)" "on_border (shape A) q" for q
  proof -
    from that have "data (label A) ! q
        \<in> (\<lambda>q. data (label A) ! q) ` {q. q < length (data A) \<and> on_border (shape A) q}"
      by blast
    with that(1) R(3)[of q] show ?thesis by simp
  qed
  have keep: "(if data (label R) ! p \<in> ?B then 0 else data R ! p) = data R ! p"
    if p: "p < length (data R)" for p
  proof (cases "data (label R) ! p \<in> ?B")
    case False
    then show ?thesis by simp
  next
    case True
    then obtain q where q: "q < length (data R)" "on_border (shape R) q"
      "data (label R) ! p = data (label R) ! q"
      by blast
    with R(1,2) border_zero[of q] have "data R ! q = 0" by simp
    with q(1) have "data (label R) ! q = 0" by (simp add: label_zero_iff)
    with q(3) have "data (label R) ! p = 0" by simp
    with p have "data R ! p = 0" by (simp add: label_zero_iff)
    then show ?thesis by simp
  qed
  have "map (\<lambda>p. if data (label R) ! p \<in> ?B then 0 else data R ! p) [0..<length (data R)]
          = data R" (is "map ?g _ = _")
  proof (rule nth_equalityI)
    show "length (map ?g [0..<length (data R)]) = length (data R)" by simp
  next
    fix i assume "i < length (map ?g [0..<length (data R)])"
    then have i: "i < length (data R)" by simp
    then have "map ?g [0..<length (data R)] ! i = ?g i" by (simp del: if_split)
    also from i have "\<dots> = data R ! i" by (rule keep)
    finally show "map ?g [0..<length (data R)] ! i = data R ! i" .
  qed
  with R(1,4) show ?thesis by (simp add: clear_border_def Let_def)
qed

text \<open>
  C5. Clearing the borders of the result of a clearing gives that result again, for
  \<^verbatim>\<open>clear_XY_borders\<close> and for \<^verbatim>\<open>clear_Z_borders\<close>, on an array of any shape; when
  the first clearing fails, so does the sequence.
\<close>

theorem border_clearing_idempotent:
  "(case clear_XY_borders L of Inl e \<Rightarrow> Inl e | Inr R \<Rightarrow> clear_XY_borders R)
     = clear_XY_borders L
   \<and> (case clear_Z_borders L of Inl e \<Rightarrow> Inl e | Inr R \<Rightarrow> clear_Z_borders R)
     = clear_Z_borders L"
proof
  show "(case clear_XY_borders L of Inl e \<Rightarrow> Inl e | Inr R \<Rightarrow> clear_XY_borders R)
     = clear_XY_borders L"
  proof (cases "length (shape L) = 2")
    case True
    show ?thesis
    proof (cases "clear_border L")
      case (Inl e)
      with True show ?thesis by (simp add: clear_XY_borders_def)
    next
      case (Inr R)
      from clear_border_Inr(1)[OF Inr] True have "length (shape R) = 2" by simp
      with True Inr clear_border_idem[OF Inr] show ?thesis by (simp add: clear_XY_borders_def)
    qed
  next
    case False
    show ?thesis
    proof (cases "length (shape L) = 3")
      case True
      have "\<And>labs. length (shape (label (clear_labels labs L))) = 3" using True by simp
      with True face_clearing_idempotent[where L = L and faces = "[(1, False), (1, True), (2, False), (2, True)]"]
      show ?thesis by (auto simp: clear_XY_borders_def split: sum.splits)
    next
      case F3: False
      with False show ?thesis by (simp add: clear_XY_borders_def)
    qed
  qed
next
  show "(case clear_Z_borders L of Inl e \<Rightarrow> Inl e | Inr R \<Rightarrow> clear_Z_borders R)
     = clear_Z_borders L"
  proof (cases "length (shape L) = 2")
    case True
    then show ?thesis by (simp add: clear_Z_borders_def)
  next
    case False
    show ?thesis
    proof (cases "length (shape L) = 3")
      case True
      have "\<And>labs. length (shape (label (clear_labels labs L))) = 3" using True by simp
      with True face_clearing_idempotent[where L = L and faces = "[(0, False), (0, True)]"]
      show ?thesis by (auto simp: clear_Z_borders_def split: sum.splits)
    next
      case F3: False
      with False show ?thesis by (simp add: clear_Z_borders_def)
    qed
  qed
qed

lemma face_labels_iff:
  assumes "collect_border_labels L faces [] = Inr labs"
  shows "v \<in> set labs \<longleftrightarrow>
           (\<exists>q<length (data L). (\<exists>(axis, at_end)\<in>set faces. at_face (shape L) axis at_end q)
               \<and> data L ! q = v)"
  using collect_border_labels_Inr[OF assms] by auto

lemma face_clearing_no_merge:
  assumes p: "p < length (data L)" and q: "q < length (data L)"
    and nz: "data (label (clear_labels labs L)) ! p \<noteq> 0"
    and eq: "data (label (clear_labels labs L)) ! p = data (label (clear_labels labs L)) ! q"
  shows "data L ! p = data L ! q"
proof -
  let ?C = "clear_labels labs L"
  from p q have pc: "p < length (data ?C)" and qc: "q < length (data ?C)" by simp_all
  from nz eq have nzq: "data (label ?C) ! q \<noteq> 0" by simp
  from pc nz have cp: "data ?C ! p \<noteq> 0" using label_zero_iff[of p ?C] by simp
  from qc nzq have cq: "data ?C ! q \<noteq> 0" using label_zero_iff[of q ?C] by simp
  from eq have "connected ?C p q" using label_eq_iff[OF pc qc cp cq] by simp
  with pc have "data ?C ! p = data ?C ! q" by (simp add: connected_props)
  moreover from p cp have "data ?C ! p = data L ! p"
    by (simp add: clear_labels_nth split: if_splits)
  moreover from q cq have "data ?C ! q = data L ! q"
    by (simp add: clear_labels_nth split: if_splits)
  ultimately show ?thesis by simp
qed

lemma face_clearing_keeps_together:
  assumes p: "p < length (data L)" and q: "q < length (data L)"
    and nz: "data (label (clear_labels labs L)) ! p \<noteq> 0"
    and nb: "neighbours (shape L) p q" and same: "data L ! p = data L ! q"
  shows "data (label (clear_labels labs L)) ! p = data (label (clear_labels labs L)) ! q"
proof -
  let ?C = "clear_labels labs L"
  from p q have pc: "p < length (data ?C)" and qc: "q < length (data ?C)" by simp_all
  from pc nz have cp: "data ?C ! p \<noteq> 0" using label_zero_iff[of p ?C] by simp
  with p have keep: "data L ! p \<notin> set labs" "data ?C ! p = data L ! p"
    by (simp_all add: clear_labels_nth split: if_splits)
  with q same have cq: "data ?C ! q = data L ! q" by (simp add: clear_labels_nth)
  with keep same cp have "data ?C ! p = data ?C ! q" "data ?C ! q \<noteq> 0" by simp_all
  with pc qc nb cp have "(p, q) \<in> adjacent ?C" by (simp add: adjacent_iff)
  then have "connected ?C p q" by (rule connected_adjacent)
  with pc qc cp \<open>data ?C ! q \<noteq> 0\<close> show ?thesis by (simp add: label_eq_iff)
qed

text \<open>
  C4. A 3D labeled image with non-empty rows and columns: \<^verbatim>\<open>clear_XY_borders\<close>
  returns an image of the same shape in which a voxel is foreground exactly when it was
  foreground and no voxel with its label lies on a row or column face (the depth faces
  play no part: a label that touches only the first or the last slice is kept whole).
  The kept voxels keep their grouping: two voxels with the same new label had the same
  label, and neighbouring voxels of one kept label get one new label. On a 2D image,
  \<^verbatim>\<open>clear_Z_borders\<close> returns the image as it is.
\<close>

theorem clear_XY_borders_removes_row_column_labels:
  assumes "shape L = [d, h, w]" and "0 < h" and "0 < w"
  shows "\<exists>R. clear_XY_borders L = Inr R \<and> shape R = shape L
           \<and> length (data R) = length (data L)
           \<and> (\<forall>p<length (data L).
                 data R ! p \<noteq> 0 \<longleftrightarrow>
                   data L ! p \<noteq> 0
                   \<and> \<not> (\<exists>q<length (data L).
                           (on_face (shape L) 1 q \<or> on_face (shape L) 2 q)
                           \<and> data L ! q = data L ! p))
           \<and> (\<forall>p<length (data L). \<forall>q<length (data L).
                 data R ! p \<noteq> 0 \<and> data R ! p = data R ! q \<longrightarrow> data L ! p = data L ! q)
           \<and> (\<forall>p<length (data L). \<forall>q<length (data L).
                 data R ! p \<noteq> 0 \<and> neighbours (shape L) p q \<and> data L ! p = data L ! q
                   \<longrightarrow> data R ! p = data R ! q)
           \<and> (\<forall>L2. length (shape L2) = 2 \<longrightarrow> clear_Z_borders L2 = Inr L2)"
proof -
  let ?faces = "[(1, False), (1, True), (2, False), (2, True)]"
  from assms have "\<forall>(axis, at_end)\<in>set ?faces. shape L ! axis \<noteq> 0" by simp
  from collect_border_labels_ok[OF this, of "[]"] obtain labs where
    labs: "collect_border_labels L ?faces [] = Inr labs" by blast
  let ?R = "label (clear_labels labs L)"
  from assms(1) labs have R: "clear_XY_borders L = Inr ?R" by (simp add: clear_XY_borders_def)
  have in_labs: "v \<in> set labs \<longleftrightarrow>
      (\<exists>q<length (data L). (on_face (shape L) 1 q \<or> on_face (shape L) 2 q) \<and> data L ! q = v)"
    for v
    unfolding face_labels_iff[OF labs] on_face_def by auto
  have fg: "\<forall>p<length (data L).
                 data ?R ! p \<noteq> 0 \<longleftrightarrow>
                   data L ! p \<noteq> 0
                   \<and> \<not> (\<exists>q<length (data L).
                           (on_face (shape L) 1 q \<or> on_face (shape L) 2 q)
                           \<and> data L ! q = data L ! p)"
    using face_clearing_once[OF labs] in_labs by simp
  have nm: "\<forall>p<length (data L). \<forall>q<length (data L).
                 data ?R ! p \<noteq> 0 \<and> data ?R ! p = data ?R ! q \<longrightarrow> data L ! p = data L ! q"
    using face_clearing_no_merge[of _ L _ labs] by blast
  have kt: "\<forall>p<length (data L). \<forall>q<length (data L).
                 data ?R ! p \<noteq> 0 \<and> neighbours (shape L) p q \<and> data L ! p = data L ! q
                   \<longrightarrow> data ?R ! p = data ?R ! q"
    using face_clearing_keeps_together[of _ L _ labs] by blast
  have z2: "\<forall>L2. length (shape L2) = 2 \<longrightarrow> clear_Z_borders L2 = Inr L2"
    by (simp add: clear_Z_borders_def)
  have "shape ?R = shape L" "length (data ?R) = length (data L)" by simp_all
  with R fg nm kt z2 show ?thesis by blast
qed

theorem clear_XY_borders_removes_row_column_labels_witness:
  "(\<exists>R. clear_XY_borders \<lparr>shape = [1, 3, 3], data = [0, 0, 0, 0, 7, 0, 3, 0, 0]\<rparr> = Inr R
        \<and> data R ! 4 \<noteq> 0 \<and> data R ! 6 = 0)
   \<and> clear_Z_borders \<lparr>shape = [3, 3], data = [0, 0, 0, 0, 7, 0, 3, 0, 0]\<rparr>
       = Inr \<lparr>shape = [3, 3], data = [0, 0, 0, 0, 7, 0, 3, 0, 0]\<rparr>"
proof -
  let ?L = "\<lparr>shape = [1, 3, 3], data = [0, 0, 0, 0, 7, 0, 3, 0, 0]\<rparr>"
  have sh: "shape ?L = [1, 3, 3]" by simp
  from clear_XY_borders_removes_row_column_labels[OF sh] obtain R where
    R: "clear_XY_borders ?L = Inr R"
    and fg: "\<forall>p<length (data ?L).
                 data R ! p \<noteq> 0 \<longleftrightarrow>
                   data ?L ! p \<noteq> 0
                   \<and> \<not> (\<exists>q<length (data ?L).
                           (on_face (shape ?L) 1 q \<or> on_face (shape ?L) 2 q)
                           \<and> data ?L ! q = data ?L ! p)"
    and z2: "\<forall>L2. length (shape L2) = 2 \<longrightarrow> clear_Z_borders L2 = Inr L2"
    by auto
  have "list_all (\<lambda>q. \<not> ((on_face (shape ?L) 1 q \<or> on_face (shape ?L) 2 q)
                          \<and> data ?L ! q = 7)) [0..<9]"
    by code_simp
  then have no7: "\<not> (\<exists>q<9. (on_face (shape ?L) 1 q \<or> on_face (shape ?L) 2 q)
                          \<and> data ?L ! q = 7)"
    unfolding list_all_iff by auto
  from fg have "data R ! 4 \<noteq> 0 \<longleftrightarrow>
                   data ?L ! 4 \<noteq> 0
                   \<and> \<not> (\<exists>q<length (data ?L).
                           (on_face (shape ?L) 1 q \<or> on_face (shape ?L) 2 q)
                           \<and> data ?L ! q = data ?L ! 4)"
    by simp
  with no7 have k4: "data R ! 4 \<noteq> 0" by simp
  have "on_face (shape ?L) 2 6" by code_simp
  then have f6: "\<exists>q<length (data ?L).
                           (on_face (shape ?L) 1 q \<or> on_face (shape ?L) 2 q)
                           \<and> data ?L ! q = data ?L ! 6"
    by (intro exI[of _ 6]) simp
  from fg have "data R ! 6 \<noteq> 0 \<longleftrightarrow>
                   data ?L ! 6 \<noteq> 0
                   \<and> \<not> (\<exists>q<length (data ?L).
                           (on_face (shape ?L) 1 q \<or> on_face (shape ?L) 2 q)
                           \<and> data ?L ! q = data ?L ! 6)"
    by simp
  with f6 have k6: "data R ! 6 = 0" by blast
  from z2 have "clear_Z_borders \<lparr>shape = [3, 3], data = [0, 0, 0, 0, 7, 0, 3, 0, 0]\<rparr>
       = Inr \<lparr>shape = [3, 3], data = [0, 0, 0, 0, 7, 0, 3, 0, 0]\<rparr>"
    by simp
  with R k4 k6 show ?thesis by blast
qed

section \<open>The particle finder: the monochromatic precondition\<close>

lemma pixels_loaded: "priv_pixels L = Some px \<Longrightarrow> pixels fs L = Inr (L, Some px)"
  by (simp add: pixels_def)

lemma ImageBinary_init_error:
  "ImageBinary_init px path b = Inl e \<Longrightarrow>
     e = IndexError \<or> e = ValueError \<or> e = AttributeError \<or> e = AssertionError []"
  by (auto simp: ImageBinary_init_def ImageBase_init_def rebinarize_def np_min_def np_max_def
           dest: extract_nd_error split: sum.splits option.splits if_splits)

lemma make_particle_error:
  "make_particle ax asp px v = Inl e \<Longrightarrow> e \<noteq> AssertionError ''monochromatic image detected.''"
  by (auto simp: make_particle_def Particle_init_def Let_def
           dest!: ImageBinary_init_error split: sum.splits if_splits)

lemma particles_loop_error:
  "particles_loop ax asp px vs acc = Inl e \<Longrightarrow>
     e \<noteq> AssertionError ''monochromatic image detected.''"
proof (induction vs arbitrary: acc)
  case Nil
  then show ?case by simp
next
  case (Cons v vs)
  then show ?case
    by (auto dest: make_particle_error split: if_splits sum.splits)
qed

lemma min_eq_max_iff:
  assumes "xs \<noteq> []"
  shows "Min (set xs) = Max (set xs) \<longleftrightarrow> (\<forall>x\<in>set xs. \<forall>y\<in>set xs. x = (y::int))"
proof
  assume eq: "Min (set xs) = Max (set xs)"
  { fix x assume "x \<in> set xs"
    then have "Min (set xs) \<le> x" "x \<le> Max (set xs)" by auto
    with eq have "x = Min (set xs)" by simp }
  then show "\<forall>x\<in>set xs. \<forall>y\<in>set xs. x = y" by metis
next
  assume a: "\<forall>x\<in>set xs. \<forall>y\<in>set xs. x = y"
  from assms obtain c where "c \<in> set xs" by (cases xs) auto
  with a have "\<forall>x\<in>set xs. x = c" by blast
  with assms have "set xs = {c}" by (rule set_const)
  then show "Min (set xs) = Max (set xs)" by simp
qed

text \<open>
  C6. For a labeled image whose buffer is loaded: when all its samples are equal,
  particle extraction fails (no particle list is returned), and when it also holds at
  least one sample the failure is the assertion \<^verbatim>\<open>monochromatic image detected.\<close>,
  raised before any label is visited (an array of size 0 fails in \<^verbatim>\<open>min()\<close>). When
  two of its samples differ, extraction never raises that assertion.
\<close>

theorem monochromatic_image_rejected:
  assumes "priv_pixels L = Some px"
  shows "((\<forall>x\<in>set (data px). \<forall>y\<in>set (data px). x = y) \<longrightarrow>
            (\<exists>e. get_particles_from_labeled_image fs L L_axes L_aspect = Inl e)
            \<and> (data px \<noteq> [] \<longrightarrow>
                 get_particles_from_labeled_image fs L L_axes L_aspect
                   = Inl (AssertionError ''monochromatic image detected.'')))
       \<and> (\<not> (\<forall>x\<in>set (data px). \<forall>y\<in>set (data px). x = y) \<longrightarrow>
            get_particles_from_labeled_image fs L L_axes L_aspect
              \<noteq> Inl (AssertionError ''monochromatic image detected.''))"
proof (intro conjI impI)
  assume mono: "\<forall>x\<in>set (data px). \<forall>y\<in>set (data px). x = y"
  show "\<exists>e. get_particles_from_labeled_image fs L L_axes L_aspect = Inl e"
  proof (cases "data px = []")
    case True
    with assms show ?thesis
      by (simp add: get_particles_from_labeled_image_def pixels_loaded np_min_def)
  next
    case False
    with mono min_eq_max_iff[of "data px"] assms show ?thesis
      by (simp add: get_particles_from_labeled_image_def pixels_loaded np_min_def np_max_def)
  qed
next
  assume mono: "\<forall>x\<in>set (data px). \<forall>y\<in>set (data px). x = y" and ne: "data px \<noteq> []"
  with min_eq_max_iff[of "data px"] assms
  show "get_particles_from_labeled_image fs L L_axes L_aspect
          = Inl (AssertionError ''monochromatic image detected.'')"
    by (simp add: get_particles_from_labeled_image_def pixels_loaded np_min_def np_max_def)
next
  assume nm: "\<not> (\<forall>x\<in>set (data px). \<forall>y\<in>set (data px). x = y)"
  then have ne: "data px \<noteq> []" by auto
  with nm min_eq_max_iff[of "data px"] have "Min (set (data px)) \<noteq> Max (set (data px))" by blast
  with ne assms show "get_particles_from_labeled_image fs L L_axes L_aspect
              \<noteq> Inl (AssertionError ''monochromatic image detected.'')"
    by (auto simp: get_particles_from_labeled_image_def pixels_loaded np_min_def np_max_def
             dest: particles_loop_error)
qed

theorem monochromatic_image_rejected_witness:
  "get_particles_from_labeled_image (\<lambda>p. None)
      \<lparr> priv_path_to_local = None, priv_pixels = Some \<lparr>shape = [1, 2], data = [2, 2]\<rparr>,
        priv_axes_order = ''TZYX'' \<rparr> (Some ''YX'') [1, 1]
     = Inl (AssertionError ''monochromatic image detected.'')
   \<and> get_particles_from_labeled_image (\<lambda>p. None)
      \<lparr> priv_path_to_local = None, priv_pixels = Some \<lparr>shape = [1, 2], data = [0, 1]\<rparr>,
        priv_axes_order = ''TZYX'' \<rparr> (Some ''YX'') [1, 1]
     \<noteq> Inl (AssertionError ''monochromatic image detected.'')"
proof -
  let ?L1 = "\<lparr> priv_path_to_local = None, priv_pixels = Some \<lparr>shape = [1, 2], data = [2, 2]\<rparr>,
        priv_axes_order = ''TZYX'' \<rparr>"
  let ?L2 = "\<lparr> priv_path_to_local = None, priv_pixels = Some \<lparr>shape = [1, 2], data = [0, 1]\<rparr>,
        priv_axes_order = ''TZYX'' \<rparr>"
  have a1: "priv_pixels ?L1 = Some \<lparr>shape = [1, 2], data = [2, 2]\<rparr>" by simp
  have a2: "priv_pixels ?L2 = Some \<lparr>shape = [1, 2], data = [0, 1]\<rparr>" by simp
  from monochromatic_image_rejected[where fs = "\<lambda>p. None" and L_axes = "Some ''YX''"
      and L_aspect = "[1, 1]", OF a1]
  have "get_particles_from_labeled_image (\<lambda>p. None) ?L1 (Some ''YX'') [1, 1]
     = Inl (AssertionError ''monochromatic image detected.'')" by simp
  moreover from monochromatic_image_rejected[where fs = "\<lambda>p. None" and L_axes = "Some ''YX''"
      and L_aspect = "[1, 1]", OF a2]
  have "get_particles_from_labeled_image (\<lambda>p. None) ?L2 (Some ''YX'') [1, 1]
     \<noteq> Inl (AssertionError ''monochromatic image detected.'')" by simp
  ultimately show ?thesis by blast
qed

section \<open>The particle finder: one particle per label\<close>

























section \<open>The cropped mask of a label is a well-formed array\<close>

text \<open>
  The crop of a well-formed array by the bounding region of a label holds as many samples
  as the extents of the region say: the region lies within the array, and a box of the
  lattice holds the product of its extents.
\<close>

lemma unravel_bound:
  "p < prod_list sh \<Longrightarrow> k < length sh \<Longrightarrow> unravel sh p ! k < sh ! k"
proof (induction sh arbitrary: p k)
  case Nil
  then show ?case by simp
next
  case (Cons n ss)
  from Cons.prems(1) have pn: "p < n * prod_list ss" by simp
  then have P: "0 < prod_list ss" by (cases "prod_list ss = 0") auto
  show ?case
  proof (cases k)
    case 0
    from pn have "p div prod_list ss < n"
      by (simp add: less_mult_imp_div_less)
    with 0 show ?thesis by simp
  next
    case (Suc j)
    from P have "p mod prod_list ss < prod_list ss" by simp
    from Cons.IH[OF this, of j] Suc Cons.prems(2) show ?thesis by simp
  qed
qed

lemma block_count:
  "length (filter (\<lambda>p. s \<le> p div P \<and> p div P < e \<and> Q (p mod P)) [0..<n * P])
     = (min e n - s) * length (filter Q [0..<P])"
proof (induction n)
  case 0
  then show ?case by simp
next
  case (Suc n)
  let ?F = "\<lambda>p. s \<le> p div P \<and> p div P < e \<and> Q (p mod P)"
  have split: "[0..<Suc n * P] = [0..<n * P] @ map (\<lambda>r. n * P + r) [0..<P]"
  proof -
    have "[0..<Suc n * P] = [0..<n * P + P]" by (simp add: add.commute)
    also have "\<dots> = [0..<n * P] @ [n * P..<n * P + P]"
      by (rule upt_add_eq_append) simp
    also have "[n * P..<n * P + P] = map (\<lambda>r. n * P + r) [0..<P]"
      by (simp add: map_add_upt add.commute)
    finally show ?thesis .
  qed
  have block: "filter ?F (map (\<lambda>r. n * P + r) [0..<P])
      = (if s \<le> n \<and> n < e then map (\<lambda>r. n * P + r) (filter Q [0..<P]) else [])"
  proof (cases "s \<le> n \<and> n < e")
    case True
    have "filter ?F (map (\<lambda>r. n * P + r) [0..<P])
        = map (\<lambda>r. n * P + r) (filter (\<lambda>r. ?F (n * P + r)) [0..<P])"
      by (simp add: filter_map comp_def)
    also have "filter (\<lambda>r. ?F (n * P + r)) [0..<P] = filter Q [0..<P]"
      using True by (intro filter_cong) auto
    finally have "filter ?F (map (\<lambda>r. n * P + r) [0..<P])
        = map (\<lambda>r. n * P + r) (filter Q [0..<P])" .
    moreover from True
    have "(if s \<le> n \<and> n < e then map (\<lambda>r. n * P + r) (filter Q [0..<P]) else [])
        = map (\<lambda>r. n * P + r) (filter Q [0..<P])"
      by (rule if_P)
    ultimately show ?thesis by (simp only:)
  next
    case False
    have "filter ?F (map (\<lambda>r. n * P + r) [0..<P])
        = map (\<lambda>r. n * P + r) (filter (\<lambda>r. ?F (n * P + r)) [0..<P])"
      by (simp add: filter_map comp_def)
    also have "filter (\<lambda>r. ?F (n * P + r)) [0..<P] = []"
      using False by (auto simp: filter_empty_conv)
    finally have "filter ?F (map (\<lambda>r. n * P + r) [0..<P]) = []" by simp
    moreover from False
    have "(if s \<le> n \<and> n < e then map (\<lambda>r. n * P + r) (filter Q [0..<P]) else []) = []"
      by (rule if_not_P)
    ultimately show ?thesis by (simp only:)
  qed
  have "length (filter ?F [0..<Suc n * P])
      = length (filter ?F [0..<n * P]) + length (filter ?F (map (\<lambda>r. n * P + r) [0..<P]))"
    by (simp only: split filter_append length_append)
  also have "\<dots> = (min e n - s) * length (filter Q [0..<P])
                   + (if s \<le> n \<and> n < e then length (filter Q [0..<P]) else 0)"
    by (simp only: Suc.IH block) simp
  also have "\<dots> = (min e (Suc n) - s) * length (filter Q [0..<P])"
  proof (cases "s \<le> n \<and> n < e")
    case True
    then have m: "min e (Suc n) - s = Suc (min e n - s)" by auto
    show ?thesis unfolding if_P[OF True] m by simp
  next
    case False
    then have m: "min e (Suc n) - s = min e n - s" by auto
    show ?thesis unfolding if_not_P[OF False] m by simp
  qed
  finally show ?case .
qed

lemma box_count:
  "list_all2 (\<lambda>(s, e) n. e \<le> n) roi sh \<Longrightarrow>
     length (filter (in_roi roi sh) [0..<prod_list sh]) = prod_list (roi_shape roi)"
proof (induction roi sh rule: list_all2_induct)
  case Nil
  then show ?case by (simp add: in_roi_def roi_shape_def)
next
  case (Cons se roi n sh)
  obtain s e where se: "se = (s, e)" by (cases se)
  with Cons.hyps have en: "e \<le> n" by simp
  have "in_roi (se # roi) (n # sh)
      = (\<lambda>p. s \<le> p div prod_list sh \<and> p div prod_list sh < e
              \<and> in_roi roi sh (p mod prod_list sh))"
    by (auto simp: in_roi_def se fun_eq_iff)
  then have "length (filter (in_roi (se # roi) (n # sh)) [0..<prod_list (n # sh)])
      = (min e n - s) * length (filter (in_roi roi sh) [0..<prod_list sh])"
    using block_count[of s "prod_list sh" e "in_roi roi sh" n] by simp
  also from en have "min e n = e" by simp
  finally show ?case using Cons.IH se by (simp add: roi_shape_def)
qed

lemma from_binary_pixels_in_bounds:
  assumes "wf_array B"
  shows "list_all2 (\<lambda>(s, e) n. e \<le> n) (from_binary_pixels B) (shape B)"
proof -
  let ?fg = "filter (\<lambda>p. data B ! p \<noteq> 0) [0..<length (data B)]"
  have "Max (set (0 # map (\<lambda>p. Suc (unravel (shape B) p ! k)) ?fg)) \<le> shape B ! k"
    if k: "k < length (shape B)" for k
  proof (rule Max.boundedI)
    show "finite (set (0 # map (\<lambda>p. Suc (unravel (shape B) p ! k)) ?fg))" by simp
    show "set (0 # map (\<lambda>p. Suc (unravel (shape B) p ! k)) ?fg) \<noteq> {}" by simp
    fix a assume "a \<in> set (0 # map (\<lambda>p. Suc (unravel (shape B) p ! k)) ?fg)"
    then consider "a = 0" | p where "p < length (data B)" "a = Suc (unravel (shape B) p ! k)"
      by auto
    then show "a \<le> shape B ! k"
    proof cases
      case 1
      then show ?thesis by simp
    next
      case 2
      with assms have "p < prod_list (shape B)" by (simp add: wf_array_def)
      from unravel_bound[OF this k] 2 show ?thesis by simp
    qed
  qed
  then show ?thesis
    by (simp add: from_binary_pixels_def Let_def list_all2_conv_all_nth)
qed

lemma particle_mask_wf:
  assumes "wf_array px"
  shows "wf_array (particle_mask px v)"
proof -
  let ?B = "eq_mask px v"
  from assms have wfB: "wf_array ?B" by (simp add: wf_array_def eq_mask_def)
  then have len: "length (data ?B) = prod_list (shape ?B)" by (simp add: wf_array_def)
  from box_count[OF from_binary_pixels_in_bounds[OF wfB]] len
  show ?thesis
    by (simp add: wf_array_def particle_mask_def apply_to_pixels_def)
qed

end
